theory Spec2Isabelle
  imports Complex_Main "HOL-Library.Word" "HOL-Library.Sublist"
begin

section \<open>The sound projector sketch: data model\<close>

text \<open>
  The firmware is one Arduino sketch, \<^verbatim>\<open>soundprojector.ino\<close>. Its behaviour is fixed by
  four preprocessor switches, by a handful of globals, and by three routines:
  \<^verbatim>\<open>modulate\<close> (the 25 microsecond timer callback), \<^verbatim>\<open>checkTrigger\<close> (polled from
  \<^verbatim>\<open>loop\<close>) and \<^verbatim>\<open>startPlayback\<close>.

  The preprocessor switches are a record of booleans; the \<^verbatim>\<open>#ifdef\<close> chains of the sketch
  become \<open>if\<close> chains in the same order. The three LED macros are commented out in the
  sketch, so their values are fields of the build as well.
\<close>

record build =
  ENABLE_LIVE_INPUT :: bool
  ENABLE_STATUS_LED :: bool
  TEST_MODE_DC :: bool
  TEST_MODE_SINE :: bool
  LED_PIN :: nat
  LED_BRIGHTNESS_READY :: int
  LED_BRIGHTNESS_PLAY :: int

text \<open>The build the sketch ships with: only \<^verbatim>\<open>TEST_MODE_SINE\<close> is defined.\<close>

definition shipped :: build where
  "shipped = \<lparr>ENABLE_LIVE_INPUT = False, ENABLE_STATUS_LED = False, TEST_MODE_DC = False,
     TEST_MODE_SINE = True, LED_PIN = 15, LED_BRIGHTNESS_READY = 30, LED_BRIGHTNESS_PLAY = 200\<rparr>"

definition PWM_PIN :: nat where "PWM_PIN = 16"
definition TRIGGER_PIN :: nat where "TRIGGER_PIN = 18"
definition AUDIO_PIN :: nat where "AUDIO_PIN = 5"

definition HIGH :: bool where "HIGH = True"
definition LOW :: bool where "LOW = False"

definition debounceDelay :: "32 word" where "debounceDelay = 50"
definition audioFilePath :: string where "audioFilePath = ''/audio.raw''"
definition sineTableSize :: int where "sineTableSize = 100"
definition testFreq :: real where "testFreq = 1000"

subsection \<open>Floating point\<close>

text \<open>
  A floating point value is the real number it denotes. A conversion to \<^verbatim>\<open>float\<close> or the
  result of an operation in \<^verbatim>\<open>double\<close> is rounded to the nearest value with 24 or 53
  significant bits, ties to the even significand. The exponent range is not modelled
  (no overflow, no subnormal numbers): the values the sketch rounds are file sizes below
  \<open>2 ^ 32\<close> and their quotients by 40000.
\<close>

definition round_half_even :: "real \<Rightarrow> int" where
  "round_half_even x =
     (if x - real_of_int \<lfloor>x\<rfloor> < 1 / 2 then \<lfloor>x\<rfloor>
      else if 1 / 2 < x - real_of_int \<lfloor>x\<rfloor> then \<lfloor>x\<rfloor> + 1
      else if even \<lfloor>x\<rfloor> then \<lfloor>x\<rfloor> else \<lfloor>x\<rfloor> + 1)"

definition fp_round :: "nat \<Rightarrow> real \<Rightarrow> real" where
  "fp_round p x =
     (if x = 0 then 0
      else (let e = \<lfloor>log 2 \<bar>x\<bar>\<rfloor>;
                q = 2 powr real_of_int (e - int p + 1)
            in real_of_int (round_half_even (x / q)) * q))"

definition c_float :: "real \<Rightarrow> real" where
  "c_float x = fp_round 24 x"

definition c_double :: "real \<Rightarrow> real" where
  "c_double x = fp_round 53 x"

text \<open>
  \<^verbatim>\<open>const float phaseIncrement = (testFreq * sineTableSize) / 40000.0;\<close>
  The three operands, the product 100000 and the quotient 2.5 are exactly representable,
  so no rounding is written here.
\<close>

definition phaseIncrement :: real where
  "phaseIncrement = (testFreq * real_of_int sineTableSize) / 40000"

text \<open>The C cast \<^verbatim>\<open>(int)x\<close> of a floating point value: truncation towards zero.\<close>

definition c_int :: "real \<Rightarrow> int" where
  "c_int x = (if 0 \<le> x then \<lfloor>x\<rfloor> else \<lceil>x\<rceil>)"

subsection \<open>Files\<close>

text \<open>
  An open \<^verbatim>\<open>File\<close> is the stored bytes and a read position. The global \<^verbatim>\<open>audioFile\<close>
  is a \<open>File option\<close>: \<open>None\<close> is a handle that tests false (never opened, failed to
  open, or closed).

  SPIFFS is the map from paths to contents, and a flag for an \<^verbatim>\<open>open\<close> that fails
  although the path exists.
\<close>

record File =
  data :: "8 word list"
  pos :: nat

record spiffs =
  files :: "string \<rightharpoonup> 8 word list"
  open_fails :: bool

definition SPIFFS_exists :: "spiffs \<Rightarrow> string \<Rightarrow> bool" where
  "SPIFFS_exists fs path = (files fs path \<noteq> None)"

definition SPIFFS_open :: "spiffs \<Rightarrow> string \<Rightarrow> File option" where
  "SPIFFS_open fs path =
     (if open_fails fs then None
      else case files fs path of
             None \<Rightarrow> None
           | Some bytes \<Rightarrow> Some \<lparr>data = bytes, pos = 0\<rparr>)"

definition File_available :: "File \<Rightarrow> nat" where
  "File_available f = length (data f) - pos f"

definition File_size :: "File \<Rightarrow> nat" where
  "File_size f = length (data f)"

text \<open>\<^verbatim>\<open>read()\<close> returns the next byte as an \<^verbatim>\<open>int\<close> and advances, or -1 at the end.\<close>

definition File_read :: "File \<Rightarrow> int \<times> File" where
  "File_read f =
     (if pos f < length (data f) then (uint (data f ! pos f), f\<lparr>pos := pos f + 1\<rparr>)
      else (- 1, f))"

subsection \<open>Effects and globals\<close>

text \<open>
  Every call that reaches outside the sketch is recorded, in order, in a trace: opening,
  reading and closing the file, the serial prints, the duty writes and the ADC read.
\<close>

datatype event =
    FsOpen string bool
  | FileRead int
  | FileClose
  | SerialPrintln string
  | SerialPrintf string "real list"
  | LedcWrite nat int
  | AnalogRead nat

record state =
  lastTriggerTime :: "32 word"
  lastTriggerState :: bool
  triggerState :: bool
  isPlaying :: bool
  audioFile :: "File option"
  sinePhase :: "32 word"
  trace :: "event list"

text \<open>The globals as the sketch initialises them.\<close>

definition initial :: state where
  "initial = \<lparr>lastTriggerTime = 0, lastTriggerState = LOW, triggerState = LOW,
     isPlaying = False, audioFile = None, sinePhase = 0, trace = []\<rparr>"

definition emit :: "event \<Rightarrow> state \<Rightarrow> state" where
  "emit e s = s\<lparr>trace := trace s @ [e]\<rparr>"

definition ledcWrite :: "nat \<Rightarrow> int \<Rightarrow> state \<Rightarrow> state" where
  "ledcWrite pin duty s = emit (LedcWrite pin duty) s"

definition Serial_println :: "string \<Rightarrow> state \<Rightarrow> state" where
  "Serial_println txt s = emit (SerialPrintln txt) s"

definition Serial_printf :: "string \<Rightarrow> real list \<Rightarrow> state \<Rightarrow> state" where
  "Serial_printf fmt args s = emit (SerialPrintf fmt args) s"

text \<open>
  \<^verbatim>\<open>millis()\<close> is the time since boot in milliseconds, cut to an \<^verbatim>\<open>unsigned long\<close>
  of 32 bits. The model's clock is the true time, a natural number.
\<close>

definition millis :: "nat \<Rightarrow> 32 word" where
  "millis now = word_of_nat now"

section \<open>The routines\<close>

subsection \<open>startPlayback\<close>

text \<open>
  \<^verbatim>\<open>float durationSeconds = (float)fileSize / 40000.0;\<close> converts the size to
  \<^verbatim>\<open>float\<close>, divides in \<^verbatim>\<open>double\<close> and stores the quotient in a \<^verbatim>\<open>float\<close>. The other
  \<^verbatim>\<open>printf\<close> arguments, the size divided in \<^verbatim>\<open>double\<close> by a power of two, are exact.
\<close>

definition finished_line :: string where
  "finished_line = ''\<newline>*** Playback finished - ready for next trigger ***''"

definition startPlayback :: "build \<Rightarrow> spiffs \<Rightarrow> state \<Rightarrow> state" where
  "startPlayback b fs s =
     (if SPIFFS_exists fs audioFilePath then
        (let opened = SPIFFS_open fs audioFilePath;
             s1 = emit (FsOpen audioFilePath (opened \<noteq> None)) (s\<lparr>audioFile := opened\<rparr>)
         in if audioFile s1 \<noteq> None then
              (let s2 = s1\<lparr>isPlaying := True\<rparr>;
                   s3 = (if ENABLE_STATUS_LED b
                         then ledcWrite (LED_PIN b) (LED_BRIGHTNESS_PLAY b) s2 else s2);
                   fileSize = File_size (the (audioFile s3));
                   durationSeconds = c_float (c_double (c_float (real fileSize) / 40000))
               in if fileSize \<ge> 1048576 then
                    Serial_printf ''Starting playback: %.2f MB, %.1f seconds\<newline>''
                      [real fileSize / 1048576, durationSeconds] s3
                  else if fileSize \<ge> 1024 then
                    Serial_printf ''Starting playback: %.1f KB, %.1f seconds\<newline>''
                      [real fileSize / 1024, durationSeconds] s3
                  else
                    Serial_printf ''Starting playback: %d bytes, %.1f seconds\<newline>''
                      [real fileSize, durationSeconds] s3)
            else Serial_println ''Failed to open audio file'' s1)
      else Serial_println ''Audio file not found'' s)"

subsection \<open>checkTrigger\<close>

text \<open>
  One pass of \<^verbatim>\<open>checkTrigger\<close> sees one pin level and one clock value (the pass takes
  microseconds, the clock ticks in milliseconds). The subtraction is the unsigned 32-bit
  one of the sketch.
\<close>

definition checkTrigger :: "build \<Rightarrow> spiffs \<Rightarrow> bool \<Rightarrow> nat \<Rightarrow> state \<Rightarrow> state" where
  "checkTrigger b fs pin now s =
     (let reading = (\<not> pin);
          s1 = (if reading \<noteq> lastTriggerState s then s\<lparr>lastTriggerTime := millis now\<rparr> else s);
          s2 = (if millis now - lastTriggerTime s1 > debounceDelay then
                  (if reading \<noteq> triggerState s1 then
                     (let s' = s1\<lparr>triggerState := reading\<rparr>
                      in if triggerState s' = HIGH \<and> \<not> isPlaying s'
                         then startPlayback b fs s' else s')
                   else s1)
                else s1)
      in s2\<lparr>lastTriggerState := reading\<rparr>)"

subsection \<open>modulate\<close>

text \<open>
  The callback takes the library's \<^verbatim>\<open>sin\<close> and the value \<^verbatim>\<open>analogRead\<close> would
  return as parameters; the products and the quotient around the call of \<^verbatim>\<open>sin\<close> are
  taken over the reals. It computes \<^verbatim>\<open>audio\<close> and ends with
  \<^verbatim>\<open>ledcWrite(PWM_PIN, audio)\<close>.
\<close>

definition modulate_file :: "build \<Rightarrow> File \<Rightarrow> state \<Rightarrow> int \<times> state" where
  "modulate_file b f s =
     (if File_available f > 0 then
        (let (c, f') = File_read f
         in (c, emit (FileRead c) (s\<lparr>audioFile := Some f'\<rparr>)))
      else
        (let s1 = emit FileClose (s\<lparr>audioFile := None\<rparr>);
             s2 = s1\<lparr>isPlaying := False\<rparr>;
             s3 = (if ENABLE_STATUS_LED b
                   then ledcWrite (LED_PIN b) (LED_BRIGHTNESS_READY b) s2 else s2);
             s4 = Serial_println finished_line s3
         in (0, s4)))"

definition modulate_idle :: "build \<Rightarrow> (real \<Rightarrow> real) \<Rightarrow> 16 word \<Rightarrow> state \<Rightarrow> int \<times> state" where
  "modulate_idle b fsin adc s =
     (if TEST_MODE_DC b then (127, s)
      else if TEST_MODE_SINE b then
        (let angle = (real (unat (sinePhase s)) * 2 * pi) / real_of_int sineTableSize;
             audio = 127 + c_int (127 * fsin angle);
             p1 = sinePhase s + word_of_int (c_int phaseIncrement);
             p2 = (if p1 \<ge> word_of_int sineTableSize then p1 - word_of_int sineTableSize else p1)
         in (audio, s\<lparr>sinePhase := p2\<rparr>))
      else if ENABLE_LIVE_INPUT b then
        (uint adc div 4, emit (AnalogRead AUDIO_PIN) s)
      else (0, s))"

definition modulate :: "build \<Rightarrow> (real \<Rightarrow> real) \<Rightarrow> 16 word \<Rightarrow> state \<Rightarrow> state" where
  "modulate b fsin adc s =
     (let (audio, s') =
            (if isPlaying s \<and> audioFile s \<noteq> None
             then modulate_file b (the (audioFile s)) s
             else modulate_idle b fsin adc s)
      in ledcWrite PWM_PIN audio s')"

subsection \<open>Runs\<close>

text \<open>
  The firmware after \<^verbatim>\<open>setup\<close> is an interleaving of timer callbacks and passes of
  \<^verbatim>\<open>loop\<close>. A callback carries the ADC value it would read, a pass of the loop the pin
  level and the clock. Each routine runs to its end before the next one starts: a timer
  callback in the middle of \<^verbatim>\<open>checkTrigger\<close> or \<^verbatim>\<open>startPlayback\<close> is not modelled.
\<close>

datatype step = Tick "16 word" | Poll bool nat

fun exec :: "build \<Rightarrow> (real \<Rightarrow> real) \<Rightarrow> spiffs \<Rightarrow> step \<Rightarrow> state \<Rightarrow> state" where
  "exec b fsin fs (Tick adc) s = modulate b fsin adc s"
| "exec b fsin fs (Poll pin now) s = checkTrigger b fs pin now s"

fun run :: "build \<Rightarrow> (real \<Rightarrow> real) \<Rightarrow> spiffs \<Rightarrow> step list \<Rightarrow> state \<Rightarrow> state" where
  "run b fsin fs [] s = s"
| "run b fsin fs (st # sts) s = run b fsin fs sts (exec b fsin fs st s)"

text \<open>Consecutive callbacks, one ADC value each.\<close>

fun ticks :: "build \<Rightarrow> (real \<Rightarrow> real) \<Rightarrow> 16 word list \<Rightarrow> state \<Rightarrow> state" where
  "ticks b fsin [] s = s"
| "ticks b fsin (adc # adcs) s = ticks b fsin adcs (modulate b fsin adc s)"

text \<open>The duty values written to the carrier pin, in order.\<close>

fun pwm_out :: "event list \<Rightarrow> int list" where
  "pwm_out [] = []"
| "pwm_out (LedcWrite pin duty # es) = (if pin = PWM_PIN then duty # pwm_out es else pwm_out es)"
| "pwm_out (e # es) = pwm_out es"

subsection \<open>Reading the trace\<close>

text \<open>The events a routine added to the trace between two states.\<close>

definition emitted :: "state \<Rightarrow> state \<Rightarrow> event list" where
  "emitted s s' = drop (length (trace s)) (trace s')"

fun is_file_event :: "event \<Rightarrow> bool" where
  "is_file_event (FsOpen path ok) = True"
| "is_file_event (FileRead c) = True"
| "is_file_event FileClose = True"
| "is_file_event e = False"

fun is_serial :: "event \<Rightarrow> bool" where
  "is_serial (SerialPrintln txt) = True"
| "is_serial (SerialPrintf fmt args) = True"
| "is_serial e = False"

definition file_events :: "event list \<Rightarrow> event list" where
  "file_events es = filter is_file_event es"

definition serial_events :: "event list \<Rightarrow> event list" where
  "serial_events es = filter is_serial es"

text \<open>Sessions opened (an \<^verbatim>\<open>open\<close> that gave a valid handle) and closed so far.\<close>

fun is_open :: "event \<Rightarrow> bool" where
  "is_open (FsOpen path ok) = ok"
| "is_open e = False"

definition sessions_opened :: "event list \<Rightarrow> nat" where
  "sessions_opened es = length (filter is_open es)"

definition sessions_closed :: "event list \<Rightarrow> nat" where
  "sessions_closed es = length (filter (\<lambda>e. e = FileClose) es)"

text \<open>
  The playing flag and the handle agree, and every opened session but the running one has
  been closed.
\<close>

definition well_formed :: "state \<Rightarrow> bool" where
  "well_formed s =
     ((isPlaying s \<longleftrightarrow> audioFile s \<noteq> None)
      \<and> sessions_opened (trace s) = sessions_closed (trace s) + (if isPlaying s then 1 else 0))"

text \<open>The status LED writes of the two routines, present only with \<^verbatim>\<open>ENABLE_STATUS_LED\<close>.\<close>

definition led_ready :: "build \<Rightarrow> event list" where
  "led_ready b = (if ENABLE_STATUS_LED b then [LedcWrite (LED_PIN b) (LED_BRIGHTNESS_READY b)] else [])"

definition led_play :: "build \<Rightarrow> event list" where
  "led_play b = (if ENABLE_STATUS_LED b then [LedcWrite (LED_PIN b) (LED_BRIGHTNESS_PLAY b)] else [])"

text \<open>The next byte of the open file, when there is one.\<close>

definition next_byte :: "state \<Rightarrow> int option" where
  "next_byte s =
     (case audioFile s of
        None \<Rightarrow> None
      | Some f \<Rightarrow> if pos f < length (data f) then Some (uint (data f ! pos f)) else None)"

subsection \<open>Concrete inputs\<close>

text \<open>
  A build with live input and no test mode; a file system holding \<^verbatim>\<open>/audio.raw\<close> with given
  bytes; an empty file system; and a trigger that is pressed, released and pressed again
  (the pin is active low), each level held for 100 ms.
\<close>

definition live_build :: build where
  "live_build = shipped\<lparr>TEST_MODE_SINE := False, ENABLE_LIVE_INPUT := True\<rparr>"

definition demo_fs :: "8 word list \<Rightarrow> spiffs" where
  "demo_fs bytes = \<lparr>files = [audioFilePath \<mapsto> bytes], open_fails = False\<rparr>"

definition no_fs :: spiffs where
  "no_fs = \<lparr>files = Map.empty, open_fails = False\<rparr>"

definition press_release_press :: "step list" where
  "press_release_press = [Poll False 0, Poll False 100, Poll True 200, Poll True 300, Poll False 400]"

subsection \<open>The test tone\<close>

text \<open>
  The duty the sine branch of \<^verbatim>\<open>modulate\<close> computes at phase \<open>p\<close>:
  \<^verbatim>\<open>127 + (int)(127.0 * sin((p * 2.0 * PI) / sineTableSize))\<close>.
\<close>

definition sine_duty :: "(real \<Rightarrow> real) \<Rightarrow> nat \<Rightarrow> int" where
  "sine_duty fsin p = 127 + c_int (127 * fsin ((real p * 2 * pi) / real_of_int sineTableSize))"

text \<open>
  The specification's FixedTone source, in its words: at phase \<open>ph\<close> it returns
  \<open>128 + round (127 * sin (2 * pi * ph / N))\<close>, \<open>N\<close> the table size.
\<close>

definition spec_FixedTone :: "real \<Rightarrow> int" where
  "spec_FixedTone ph = 128 + round (127 * sin (2 * pi * ph / real_of_int sineTableSize))"

text \<open>ADC readings for \<open>n\<close> callbacks with the input at rest.\<close>

definition adc_idle :: "nat \<Rightarrow> 16 word list" where
  "adc_idle n = replicate n 0"

subsection \<open>Polling the trigger\<close>

text \<open>
  Consecutive passes of \<^verbatim>\<open>checkTrigger\<close>, each with the pin level it reads and the clock
  at that pass, and the number of passes in which the confirmed level \<open>triggerState\<close>
  changes.
\<close>

fun polls :: "build \<Rightarrow> spiffs \<Rightarrow> (bool \<times> nat) list \<Rightarrow> state \<Rightarrow> state" where
  "polls b fs [] s = s"
| "polls b fs ((pin, now) # ps) s = polls b fs ps (checkTrigger b fs pin now s)"

fun confirmed_transitions :: "build \<Rightarrow> spiffs \<Rightarrow> (bool \<times> nat) list \<Rightarrow> state \<Rightarrow> nat" where
  "confirmed_transitions b fs [] s = 0"
| "confirmed_transitions b fs ((pin, now) # ps) s =
     (if triggerState (checkTrigger b fs pin now s) \<noteq> triggerState s then 1 else 0)
     + confirmed_transitions b fs ps (checkTrigger b fs pin now s)"

text \<open>
  A contact that bounces for 30 ms when pressed and is released again, and a press held
  for 60 ms (the pin is active low), polled every 10 ms.
\<close>

definition bounce :: "(bool \<times> nat) list" where
  "bounce = [(False, 1000), (True, 1010), (False, 1020), (True, 1030)]"

definition held :: "(bool \<times> nat) list" where
  "held = [(False, 1000), (False, 1010), (False, 1020), (False, 1030), (False, 1040),
           (False, 1050), (False, 1060)]"

section \<open>Basic facts\<close>

subsection \<open>Rounding\<close>

lemma round_half_even_error: "\<bar>real_of_int (round_half_even x) - x\<bar> \<le> 1 / 2"
  unfolding round_half_even_def by (auto simp: abs_if) linarith+

lemma exponent_eq:
  assumes "2 powr real_of_int e \<le> \<bar>x\<bar>" and "\<bar>x\<bar> < 2 powr real_of_int (e + 1)"
  shows "\<lfloor>log 2 \<bar>x\<bar>\<rfloor> = e"
proof -
  have pos: "0 < \<bar>x\<bar>" using assms(1) powr_gt_zero [of 2 "real_of_int e"] by linarith
  have 1: "real_of_int e \<le> log 2 \<bar>x\<bar>" using assms(1) pos by (simp add: le_log_iff)
  have 2: "log 2 \<bar>x\<bar> < real_of_int (e + 1)" using assms(2) pos by (simp add: log_less_iff)
  from 1 2 show ?thesis by (simp add: floor_eq_iff)
qed

lemma fp_round_eval:
  assumes "2 powr real_of_int e \<le> \<bar>x\<bar>" and "\<bar>x\<bar> < 2 powr real_of_int (e + 1)"
  shows "fp_round p x = real_of_int (round_half_even (x / 2 powr real_of_int (e - int p + 1)))
                          * 2 powr real_of_int (e - int p + 1)"
proof -
  have "x \<noteq> 0" using assms(1) powr_gt_zero [of 2 "real_of_int e"] by auto
  then show ?thesis by (simp add: fp_round_def exponent_eq [OF assms] Let_def)
qed

lemma fp_round_error: "\<bar>fp_round p x - x\<bar> \<le> \<bar>x\<bar> / 2 ^ p"
proof (cases "x = 0")
  case True
  then show ?thesis by (simp add: fp_round_def)
next
  case False
  define e where "e = \<lfloor>log 2 \<bar>x\<bar>\<rfloor>"
  define q where "q = 2 powr real_of_int (e - int p + 1)"
  have q: "0 < q" by (simp add: q_def)
  have le: "2 powr real_of_int e \<le> \<bar>x\<bar>"
    using False by (simp add: e_def le_log_iff [symmetric])
  have f: "fp_round p x = real_of_int (round_half_even (x / q)) * q"
    using False by (simp add: fp_round_def e_def q_def Let_def)
  have "\<bar>fp_round p x - x\<bar> = \<bar>real_of_int (round_half_even (x / q)) - x / q\<bar> * q"
  proof -
    have "fp_round p x - x = (real_of_int (round_half_even (x / q)) - x / q) * q"
      using q by (simp add: f field_simps)
    then have "\<bar>fp_round p x - x\<bar> = \<bar>real_of_int (round_half_even (x / q)) - x / q\<bar> * \<bar>q\<bar>"
      by (simp only: abs_mult)
    then show ?thesis using q by simp
  qed
  also have "\<dots> \<le> (1 / 2) * q"
    using round_half_even_error [of "x / q"] q by (simp add: mult_right_mono)
  also have "\<dots> = 2 powr real_of_int e / 2 ^ p"
  proof -
    have "real_of_int (e - int p + 1) = real_of_int e + 1 - real p" by simp
    then have "q = 2 powr real_of_int e * 2 / 2 powr real p"
      unfolding q_def by (simp add: powr_add powr_diff)
    then show ?thesis by (simp add: powr_realpow)
  qed
  also have "\<dots> \<le> \<bar>x\<bar> / 2 ^ p" using le by (simp add: divide_right_mono)
  finally show ?thesis .
qed

lemma c_float_3: "c_float 3 = 3"
proof -
  have "fp_round 24 3 = real_of_int (round_half_even (3 / 2 powr real_of_int (1 - int 24 + 1)))
                          * 2 powr real_of_int (1 - int 24 + 1)"
    by (rule fp_round_eval) simp_all
  then show ?thesis by (simp add: c_float_def round_half_even_def powr_minus)
qed

lemma c_double_3_40000: "c_double (3 / 40000) = 5534023222112865 / 73786976294838206464"
proof -
  have "fp_round 53 (3 / 40000) =
      real_of_int (round_half_even ((3 / 40000) / 2 powr real_of_int (- 14 - int 53 + 1)))
        * 2 powr real_of_int (- 14 - int 53 + 1)"
    by (rule fp_round_eval) (simp_all add: powr_minus)
  then show ?thesis by (simp add: c_double_def round_half_even_def powr_minus)
qed

lemma c_float_duration_3: "c_float (5534023222112865 / 73786976294838206464) = 5153961 / 68719476736"
proof -
  have "fp_round 24 (5534023222112865 / 73786976294838206464) =
      real_of_int (round_half_even ((5534023222112865 / 73786976294838206464)
           / 2 powr real_of_int (- 14 - int 24 + 1)))
        * 2 powr real_of_int (- 14 - int 24 + 1)"
    by (rule fp_round_eval) (simp_all add: powr_minus)
  then show ?thesis by (simp add: c_float_def round_half_even_def powr_minus)
qed

lemma duration_3: "c_float (c_double (c_float (real 3) / 40000)) = 5153961 / 68719476736"
  by (simp add: c_float_3 c_double_3_40000 c_float_duration_3)

lemma duration_error:
  "\<bar>c_float (c_double (c_float (real n) / 40000)) - real n / 40000\<bar> \<le> (real n / 40000) / 2 ^ 22"
proof -
  define X where "X = real n / 40000"
  define a where "a = c_float (real n)"
  define b where "b = c_double (a / 40000)"
  define c where "c = c_float b"
  have X: "0 \<le> X" by (simp add: X_def)
  have "\<bar>a - real n\<bar> \<le> real n / 2 ^ 24"
    using fp_round_error [of 24 "real n"] by (simp add: a_def c_float_def)
  then have "\<bar>a - real n\<bar> / 40000 \<le> (real n / 2 ^ 24) / 40000"
    by (rule divide_right_mono) simp
  then have 1: "\<bar>a / 40000 - X\<bar> \<le> X / 16777216"
    by (simp add: X_def abs_if split: if_splits)
  then have x1: "\<bar>a / 40000\<bar> \<le> X * (9 / 8)" using X by (simp add: abs_if split: if_splits)
  have "\<bar>b - a / 40000\<bar> \<le> \<bar>a / 40000\<bar> / 2 ^ 53"
    using fp_round_error [of 53 "a / 40000"] by (simp add: b_def c_double_def)
  moreover have "\<bar>a / 40000\<bar> / 2 ^ 53 \<le> X * (9 / 8) / 2 ^ 53"
    by (rule divide_right_mono [OF x1]) simp
  ultimately have 2: "\<bar>b - a / 40000\<bar> \<le> X * (9 / 8) / 2 ^ 53" by linarith
  with x1 have b: "\<bar>b\<bar> \<le> X * (5 / 4)" using X by (simp add: abs_if split: if_splits)
  have "\<bar>c - b\<bar> \<le> \<bar>b\<bar> / 2 ^ 24"
    using fp_round_error [of 24 b] by (simp add: c_def c_float_def)
  moreover have "\<bar>b\<bar> / 2 ^ 24 \<le> X * (5 / 4) / 2 ^ 24"
    by (rule divide_right_mono [OF b]) simp
  ultimately have 3: "\<bar>c - b\<bar> \<le> X * (5 / 4) / 2 ^ 24" by linarith
  from 1 2 3 X have "\<bar>c - X\<bar> \<le> X / 2 ^ 22" by (simp add: abs_if split: if_splits)
  then show ?thesis by (simp add: c_def b_def a_def X_def)
qed

subsection \<open>What one call does\<close>

lemmas effect_defs = emit_def ledcWrite_def Serial_println_def Serial_printf_def

lemma c_int_phaseIncrement: "c_int phaseIncrement = 2"
  by (simp add: c_int_def phaseIncrement_def testFreq_def sineTableSize_def)

lemma trace_ledcWrite [simp]: "trace (ledcWrite pin d s) = trace s @ [LedcWrite pin d]"
  by (simp add: ledcWrite_def emit_def)

lemma emitted_append [simp]: "emitted s (s'\<lparr>trace := trace s @ es\<rparr>) = es"
  by (simp add: emitted_def)

lemma millis_numeral [simp]: "millis (numeral n) = numeral n" "millis 0 = 0"
  by (simp_all add: millis_def)

lemma modulate_read:
  assumes "isPlaying s" "audioFile s = Some f" "pos f < length (data f)"
  shows "modulate b fsin adc s =
           s\<lparr>audioFile := Some (f\<lparr>pos := pos f + 1\<rparr>),
             trace := trace s @ [FileRead (uint (data f ! pos f)), LedcWrite PWM_PIN (uint (data f ! pos f))]\<rparr>"
  using assms
  by (simp add: modulate_def modulate_file_def File_available_def File_read_def effect_defs)

lemma modulate_eof:
  assumes "isPlaying s" "audioFile s = Some f" "\<not> pos f < length (data f)"
  shows "modulate b fsin adc s =
           s\<lparr>audioFile := None, isPlaying := False,
             trace := trace s @ [FileClose] @ led_ready b @ [SerialPrintln finished_line, LedcWrite PWM_PIN 0]\<rparr>"
  using assms
  by (simp add: modulate_def modulate_file_def File_available_def effect_defs led_ready_def)

lemma modulate_not_playing:
  assumes "\<not> (isPlaying s \<and> audioFile s \<noteq> None)"
  shows "modulate b fsin adc s =
           ledcWrite PWM_PIN (fst (modulate_idle b fsin adc s)) (snd (modulate_idle b fsin adc s))"
  using assms by (auto simp add: modulate_def split: prod.splits)

lemma modulate_idle_frame:
  "isPlaying (snd (modulate_idle b fsin adc s)) = isPlaying s
   \<and> audioFile (snd (modulate_idle b fsin adc s)) = audioFile s
   \<and> lastTriggerTime (snd (modulate_idle b fsin adc s)) = lastTriggerTime s
   \<and> lastTriggerState (snd (modulate_idle b fsin adc s)) = lastTriggerState s
   \<and> triggerState (snd (modulate_idle b fsin adc s)) = triggerState s"
  by (simp add: modulate_idle_def emit_def Let_def)

lemma modulate_idle_trace:
  "trace (snd (modulate_idle b fsin adc s)) =
     trace s @ (if \<not> TEST_MODE_DC b \<and> \<not> TEST_MODE_SINE b \<and> ENABLE_LIVE_INPUT b
                then [AnalogRead AUDIO_PIN] else [])"
  by (simp add: modulate_idle_def emit_def Let_def)

lemma startPlayback_ok:
  assumes "files fs audioFilePath = Some B" "\<not> open_fails fs"
  shows "startPlayback b fs s =
           s\<lparr>audioFile := Some \<lparr>data = B, pos = 0\<rparr>, isPlaying := True,
             trace := trace s @ [FsOpen audioFilePath True] @ led_play b @
               [if length B \<ge> 1048576 then
                  SerialPrintf ''Starting playback: %.2f MB, %.1f seconds\<newline>''
                    [real (length B) / 1048576, c_float (c_double (c_float (real (length B)) / 40000))]
                else if length B \<ge> 1024 then
                  SerialPrintf ''Starting playback: %.1f KB, %.1f seconds\<newline>''
                    [real (length B) / 1024, c_float (c_double (c_float (real (length B)) / 40000))]
                else
                  SerialPrintf ''Starting playback: %d bytes, %.1f seconds\<newline>''
                    [real (length B), c_float (c_double (c_float (real (length B)) / 40000))]]\<rparr>"
  using assms
  by (simp add: startPlayback_def SPIFFS_exists_def SPIFFS_open_def File_size_def effect_defs
      led_play_def Let_def)

lemma startPlayback_missing:
  assumes "files fs audioFilePath = None"
  shows "startPlayback b fs s = s\<lparr>trace := trace s @ [SerialPrintln ''Audio file not found'']\<rparr>"
  using assms by (simp add: startPlayback_def SPIFFS_exists_def effect_defs)

lemma startPlayback_unopenable:
  assumes "files fs audioFilePath \<noteq> None" "open_fails fs"
  shows "startPlayback b fs s =
           s\<lparr>audioFile := None,
             trace := trace s @ [FsOpen audioFilePath False, SerialPrintln ''Failed to open audio file'']\<rparr>"
  using assms by (simp add: startPlayback_def SPIFFS_exists_def SPIFFS_open_def effect_defs)

lemma checkTrigger_playing:
  assumes "isPlaying s"
  shows "checkTrigger b fs pin now s =
     s\<lparr>lastTriggerTime := (if (\<not> pin) \<noteq> lastTriggerState s then millis now else lastTriggerTime s),
       triggerState := (if millis now - (if (\<not> pin) \<noteq> lastTriggerState s then millis now else lastTriggerTime s) > debounceDelay
                        then (\<not> pin) else triggerState s),
       lastTriggerState := (\<not> pin)\<rparr>"
  using assms by (auto simp add: checkTrigger_def Let_def)

subsection \<open>The trace only grows, and the routines do not read it\<close>

lemma modulate_grows: "prefix (trace s) (trace (modulate b fsin adc s))"
proof (cases "isPlaying s \<and> audioFile s \<noteq> None")
  case False
  then show ?thesis
    by (simp add: modulate_not_playing ledcWrite_def emit_def modulate_idle_trace)
next
  case True
  then obtain f where f: "audioFile s = Some f" by auto
  from True have p: "isPlaying s" by simp
  show ?thesis
    by (cases "pos f < length (data f)") (simp_all add: modulate_read [OF p f] modulate_eof [OF p f])
qed

lemma ticks_grows: "prefix (trace s) (trace (ticks b fsin adcs s))"
proof (induction adcs arbitrary: s)
  case Nil
  then show ?case by simp
next
  case (Cons adc adcs)
  show ?case
    using prefix_order.trans [OF modulate_grows Cons] by simp
qed

lemma trace_emitted: "prefix (trace s) (trace s') \<Longrightarrow> trace s' = trace s @ emitted s s'"
  by (auto simp: prefix_def emitted_def)

lemma modulate_frame:
  "modulate b fsin adc (s\<lparr>trace := t\<rparr>) =
     (modulate b fsin adc s)\<lparr>trace := t @ emitted s (modulate b fsin adc s)\<rparr>"
proof (cases "isPlaying s \<and> audioFile s \<noteq> None")
  case False
  then show ?thesis
    by (simp add: modulate_not_playing modulate_idle_def ledcWrite_def emit_def emitted_def Let_def)
next
  case True
  then obtain f where f: "audioFile s = Some f" by auto
  from True have p: "isPlaying s" by simp
  have f': "audioFile (s\<lparr>trace := t\<rparr>) = Some f" and p': "isPlaying (s\<lparr>trace := t\<rparr>)"
    using f p by simp_all
  show ?thesis
  proof (cases "pos f < length (data f)")
    case True
    show ?thesis
      by (simp add: modulate_read [OF p f True] modulate_read [OF p' f' True] emitted_def)
  next
    case False
    show ?thesis
      by (simp add: modulate_eof [OF p f False] modulate_eof [OF p' f' False] emitted_def)
  qed
qed

lemma ticks_frame:
  "ticks b fsin adcs (s\<lparr>trace := t\<rparr>) =
     (ticks b fsin adcs s)\<lparr>trace := t @ emitted s (ticks b fsin adcs s)\<rparr>"
proof (induction adcs arbitrary: s t)
  case Nil
  then show ?case by (simp add: emitted_def)
next
  case (Cons adc adcs)
  let ?m = "modulate b fsin adc s"
  have 1: "trace ?m = trace s @ emitted s ?m"
    by (rule trace_emitted [OF modulate_grows])
  have 2: "trace (ticks b fsin adcs ?m) = trace ?m @ emitted ?m (ticks b fsin adcs ?m)"
    by (rule trace_emitted [OF ticks_grows])
  have 3: "emitted s (ticks b fsin adcs ?m) = emitted s ?m @ emitted ?m (ticks b fsin adcs ?m)"
  proof -
    have "trace (ticks b fsin adcs ?m) = trace s @ (emitted s ?m @ emitted ?m (ticks b fsin adcs ?m))"
      using 1 2 by simp
    then show ?thesis
      unfolding emitted_def [of s "ticks b fsin adcs ?m"] by simp
  qed
  show ?case
    by (simp add: modulate_frame Cons.IH 3)
qed

subsection \<open>Callbacks during and after playback\<close>

lemma ticks_reading:
  "isPlaying s \<Longrightarrow> audioFile s = Some \<lparr>data = B, pos = p\<rparr> \<Longrightarrow> p + length adcs \<le> length B \<Longrightarrow>
     isPlaying (ticks b fsin adcs s)
     \<and> audioFile (ticks b fsin adcs s) = Some \<lparr>data = B, pos = p + length adcs\<rparr>
     \<and> trace (ticks b fsin adcs s) =
         trace s @ concat (map (\<lambda>c. [FileRead (uint c), LedcWrite PWM_PIN (uint c)])
                              (take (length adcs) (drop p B)))"
proof (induction adcs arbitrary: s p)
  case Nil
  then show ?case by simp
next
  case (Cons adc adcs)
  let ?f = "\<lparr>data = B, pos = p\<rparr>"
  let ?s = "modulate b fsin adc s"
  have lt: "p < length B" using Cons.prems by simp
  have m: "?s = s\<lparr>audioFile := Some (?f\<lparr>pos := pos ?f + 1\<rparr>),
             trace := trace s @ [FileRead (uint (data ?f ! pos ?f)), LedcWrite PWM_PIN (uint (data ?f ! pos ?f))]\<rparr>"
    by (rule modulate_read) (use Cons.prems lt in simp_all)
  have a: "isPlaying ?s" using m Cons.prems by simp
  have f: "audioFile ?s = Some \<lparr>data = B, pos = Suc p\<rparr>" using m by simp
  have t: "trace ?s = trace s @ [FileRead (uint (B ! p)), LedcWrite PWM_PIN (uint (B ! p))]"
    using m by simp
  have le: "Suc p + length adcs \<le> length B" using Cons.prems by simp
  have d: "take (Suc (length adcs)) (drop p B) = B ! p # take (length adcs) (drop (Suc p) B)"
    using lt by (simp add: Cons_nth_drop_Suc [symmetric])
  from Cons.IH [OF a f le] show ?case
    by (simp add: t d)
qed

lemma modulate_stopped:
  assumes "\<not> isPlaying s"
  shows "\<not> isPlaying (modulate b fsin adc s)
     \<and> audioFile (modulate b fsin adc s) = audioFile s
     \<and> prefix (trace s) (trace (modulate b fsin adc s))
     \<and> file_events (trace (modulate b fsin adc s)) = file_events (trace s)
     \<and> serial_events (trace (modulate b fsin adc s)) = serial_events (trace s)"
  using assms
  by (simp add: modulate_not_playing ledcWrite_def emit_def modulate_idle_frame modulate_idle_trace
      file_events_def serial_events_def)

lemma ticks_stopped:
  "\<not> isPlaying s \<Longrightarrow>
     \<not> isPlaying (ticks b fsin adcs s)
     \<and> audioFile (ticks b fsin adcs s) = audioFile s
     \<and> prefix (trace s) (trace (ticks b fsin adcs s))
     \<and> file_events (trace (ticks b fsin adcs s)) = file_events (trace s)
     \<and> serial_events (trace (ticks b fsin adcs s)) = serial_events (trace s)"
proof (induction adcs arbitrary: s)
  case Nil
  then show ?case by simp
next
  case (Cons adc adcs)
  note m = modulate_stopped [OF Cons.prems, of b fsin adc]
  note r = Cons.IH [of "modulate b fsin adc s"]
  have "prefix (trace s) (trace (ticks b fsin adcs (modulate b fsin adc s)))"
    using m r by (meson prefix_order.trans)
  then show ?case using m r by simp
qed

subsection \<open>One session at a time\<close>

lemma well_formed_trigger_fields [simp]:
  "well_formed (s\<lparr>lastTriggerTime := x\<rparr>) = well_formed s"
  "well_formed (s\<lparr>triggerState := y\<rparr>) = well_formed s"
  "well_formed (s\<lparr>lastTriggerState := z\<rparr>) = well_formed s"
  by (simp_all add: well_formed_def)

lemma well_formed_initial: "well_formed initial"
  by (simp add: well_formed_def initial_def sessions_opened_def sessions_closed_def)

lemma well_formed_startPlayback:
  assumes "well_formed s" "\<not> isPlaying s"
  shows "well_formed (startPlayback b fs s)"
proof (cases "files fs audioFilePath")
  case None
  then show ?thesis
    using assms
    by (simp add: startPlayback_missing well_formed_def sessions_opened_def sessions_closed_def)
next
  case (Some B)
  show ?thesis
  proof (cases "open_fails fs")
    case True
    have "files fs audioFilePath \<noteq> None" using Some by simp
    from startPlayback_unopenable [OF this True] assms show ?thesis
      by (simp add: well_formed_def sessions_opened_def sessions_closed_def)
  next
    case False
    from startPlayback_ok [OF Some False] assms show ?thesis
      by (simp add: well_formed_def sessions_opened_def sessions_closed_def led_play_def)
  qed
qed

lemma well_formed_checkTrigger:
  assumes "well_formed s"
  shows "well_formed (checkTrigger b fs pin now s)"
  using assms by (simp add: checkTrigger_def Let_def well_formed_startPlayback)

lemma well_formed_modulate:
  assumes "well_formed s"
  shows "well_formed (modulate b fsin adc s)"
proof (cases "isPlaying s \<and> audioFile s \<noteq> None")
  case False
  with assms have n: "\<not> isPlaying s" by (auto simp: well_formed_def)
  show ?thesis
    using assms n
    by (simp add: modulate_not_playing [OF False] ledcWrite_def emit_def modulate_idle_frame
        modulate_idle_trace well_formed_def sessions_opened_def sessions_closed_def)
next
  case True
  then obtain f where f: "audioFile s = Some f" by auto
  from True have p: "isPlaying s" by simp
  show ?thesis
    using assms p
    by (cases "pos f < length (data f)")
       (simp_all add: modulate_read [OF p f] modulate_eof [OF p f] well_formed_def
          sessions_opened_def sessions_closed_def led_ready_def)
qed

lemma well_formed_run: "well_formed s \<Longrightarrow> well_formed (run b fsin fs sts s)"
proof (induction sts arbitrary: s)
  case Nil
  then show ?case by simp
next
  case (Cons st sts)
  have "well_formed (exec b fsin fs st s)"
    using Cons.prems by (cases st) (simp_all add: well_formed_modulate well_formed_checkTrigger)
  then show ?case using Cons.IH by simp
qed

lemma session_ends_only_at_eof:
  assumes "isPlaying s" "\<not> isPlaying (exec b fsin fs st s)"
  shows "\<exists>adc f. st = Tick adc \<and> audioFile s = Some f \<and> File_available f = 0"
proof (cases st)
  case (Poll pin now)
  with assms show ?thesis by (simp add: checkTrigger_playing)
next
  case (Tick adc)
  show ?thesis
  proof (cases "audioFile s")
    case None
    with assms Tick show ?thesis
      by (simp add: modulate_not_playing ledcWrite_def emit_def modulate_idle_frame)
  next
    case (Some f)
    show ?thesis
    proof (cases "pos f < length (data f)")
      case True
      from modulate_read [OF assms(1) Some True] assms Tick show ?thesis by simp
    next
      case False
      then show ?thesis using Tick Some by (simp add: File_available_def)
    qed
  qed
qed

lemma press_release_press_state:
  "run shipped sin (demo_fs [10, 200, 0]) press_release_press initial =
     (startPlayback shipped (demo_fs [10, 200, 0]) (initial\<lparr>lastTriggerState := True, triggerState := True\<rparr>))
       \<lparr>lastTriggerTime := 400, triggerState := False, lastTriggerState := True\<rparr>"
proof -
  have h: "files (demo_fs [10, 200, 0]) audioFilePath = Some [10, 200, 0]"
    "\<not> open_fails (demo_fs [10, 200, 0])"
    by (simp_all add: demo_fs_def)
  show ?thesis
    by (simp add: press_release_press_def checkTrigger_def Let_def initial_def HIGH_def LOW_def
        debounceDelay_def startPlayback_ok [OF h])
qed

subsection \<open>The phase accumulator stays inside the table\<close>

lemma sinePhase_modulate_file: "sinePhase (snd (modulate_file b f s)) = sinePhase s"
  by (simp add: modulate_file_def emit_def ledcWrite_def Serial_println_def Let_def split: prod.splits)

lemma sine_wrap_hi: "unat (p :: 32 word) < 100 \<Longrightarrow> 100 \<le> p + 2 \<Longrightarrow> unat (p - 98) < 100"
  by unat_arith

lemma sine_wrap_lo: "unat (p :: 32 word) < 100 \<Longrightarrow> \<not> 100 \<le> p + 2 \<Longrightarrow> unat (p + 2) < 100"
  by unat_arith

lemma sinePhase_modulate_idle:
  "unat (sinePhase s) < 100 \<Longrightarrow> unat (sinePhase (snd (modulate_idle b fsin adc s))) < 100"
  by (simp add: modulate_idle_def c_int_phaseIncrement emit_def sineTableSize_def Let_def
        sine_wrap_hi sine_wrap_lo)

lemma sinePhase_modulate:
  "unat (sinePhase s) < 100 \<Longrightarrow> unat (sinePhase (modulate b fsin adc s)) < 100"
  using sinePhase_modulate_idle [of s b fsin adc]
  by (simp add: modulate_def ledcWrite_def emit_def sinePhase_modulate_file split: prod.splits)
   (metis sinePhase_modulate_file snd_conv)+

lemma sinePhase_startPlayback: "sinePhase (startPlayback b fs s) = sinePhase s"
  by (simp add: startPlayback_def emit_def ledcWrite_def Serial_println_def Serial_printf_def Let_def)

lemma sinePhase_checkTrigger: "sinePhase (checkTrigger b fs pin now s) = sinePhase s"
  by (simp add: checkTrigger_def sinePhase_startPlayback Let_def)

lemma sinePhase_run:
  "unat (sinePhase s) < 100 \<Longrightarrow> unat (sinePhase (run b fsin fs sts s)) < 100"
proof (induction sts arbitrary: s)
  case Nil
  then show ?case by simp
next
  case (Cons st sts)
  have "unat (sinePhase (exec b fsin fs st s)) < 100"
    using Cons.prems by (cases st) (simp_all add: sinePhase_modulate sinePhase_checkTrigger)
  then show ?case using Cons.IH by simp
qed

subsection \<open>The test tone\<close>

lemma emitted_trans:
  "prefix (trace s) (trace m) \<Longrightarrow> prefix (trace m) (trace r) \<Longrightarrow> emitted s r = emitted s m @ emitted m r"
  by (auto simp: prefix_def emitted_def)

lemma ticks_append: "ticks b fsin (xs @ ys) s = ticks b fsin ys (ticks b fsin xs s)"
  by (induction xs arbitrary: s) simp_all

lemma unat_plus2:
  assumes "unat (p :: 32 word) < 100"
  shows "unat (p + 2) = unat p + 2"
proof -
  have "unat p + unat (2 :: 32 word) < 2 ^ LENGTH(32)" using assms by simp
  then have "unat (p + 2) = unat p + unat (2 :: 32 word)" by (simp only: unat_add_lem)
  then show ?thesis by simp
qed

lemma sine_wrap_mod:
  assumes "unat (p :: 32 word) < 100"
  shows "unat (if p + 2 \<ge> 100 then p + 2 - 100 else p + 2) = (unat p + 2) mod 100"
proof (cases "100 \<le> p + 2")
  case True
  then have ge: "100 \<le> unat p + 2"
    by (simp add: word_le_nat_alt unat_plus2 [OF assms])
  have "unat (p + 2 - 100) = unat (p + 2) - unat (100 :: 32 word)"
    by (rule unat_sub [OF True])
  then have "unat (p + 2 - 100) = unat p + 2 - 100"
    by (simp add: unat_plus2 [OF assms])
  moreover have "(unat p + 2) mod 100 = unat p + 2 - 100"
    using assms ge by (simp add: mod_if)
  ultimately show ?thesis using True by simp
next
  case False
  then have "unat p + 2 < 100"
    by (simp add: word_le_nat_alt unat_plus2 [OF assms])
  then show ?thesis using False by (simp add: unat_plus2 [OF assms])
qed

lemma sine_tick:
  assumes "\<not> TEST_MODE_DC b" and "TEST_MODE_SINE b" and "\<not> (isPlaying s \<and> audioFile s \<noteq> None)"
  shows "modulate b fsin adc s =
           s\<lparr>sinePhase := (if sinePhase s + 2 \<ge> 100 then sinePhase s + 2 - 100 else sinePhase s + 2),
             trace := trace s @ [LedcWrite PWM_PIN (sine_duty fsin (unat (sinePhase s)))]\<rparr>"
  using assms(1,2)
  by (simp add: modulate_not_playing [OF assms(3)] modulate_idle_def ledcWrite_def emit_def
      c_int_phaseIncrement sine_duty_def sineTableSize_def Let_def)

lemma sine_ticks:
  assumes "\<not> TEST_MODE_DC b" and "TEST_MODE_SINE b" and "\<not> isPlaying s"
    and "unat (sinePhase s) < 100"
  shows "\<not> isPlaying (ticks b fsin adcs s)
     \<and> unat (sinePhase (ticks b fsin adcs s)) = (unat (sinePhase s) + 2 * length adcs) mod 100
     \<and> emitted s (ticks b fsin adcs s) =
         map (\<lambda>i. LedcWrite PWM_PIN (sine_duty fsin ((unat (sinePhase s) + 2 * i) mod 100)))
             [0 ..< length adcs]"
proof (induction adcs rule: rev_induct)
  case Nil
  show ?case using assms by (simp add: emitted_def)
next
  case (snoc adc adcs)
  let ?r = "ticks b fsin adcs s"
  from snoc have n: "\<not> isPlaying ?r"
    and p: "unat (sinePhase ?r) = (unat (sinePhase s) + 2 * length adcs) mod 100"
    and e: "emitted s ?r = map (\<lambda>i. LedcWrite PWM_PIN (sine_duty fsin ((unat (sinePhase s) + 2 * i) mod 100)))
             [0 ..< length adcs]"
    by simp_all
  have lt: "unat (sinePhase ?r) < 100" by (simp add: p)
  have n': "\<not> (isPlaying ?r \<and> audioFile ?r \<noteq> None)" using n by simp
  note m = sine_tick [OF assms(1,2) n', of fsin adc]
  have 1: "\<not> isPlaying (modulate b fsin adc ?r)" using n by (simp add: m)
  have 2: "unat (sinePhase (modulate b fsin adc ?r)) = (unat (sinePhase s) + 2 * length (adcs @ [adc])) mod 100"
  proof -
    have "unat (sinePhase (modulate b fsin adc ?r)) = (unat (sinePhase ?r) + 2) mod 100"
      using sine_wrap_mod [OF lt] by (simp add: m)
    also have "\<dots> = (unat (sinePhase s) + 2 * length (adcs @ [adc])) mod 100"
      unfolding p by (simp add: mod_simps)
    finally show ?thesis .
  qed
  have 3: "emitted s (modulate b fsin adc ?r) = emitted s ?r @ emitted ?r (modulate b fsin adc ?r)"
    by (rule emitted_trans [OF ticks_grows modulate_grows])
  have 4: "emitted ?r (modulate b fsin adc ?r) = [LedcWrite PWM_PIN (sine_duty fsin (unat (sinePhase ?r)))]"
    by (simp add: m)
  show ?case
    using 1 2 by (simp add: ticks_append 3 4 e p)
qed

lemma c_int_bounds: "\<bar>y\<bar> \<le> 127 \<Longrightarrow> - 127 \<le> c_int y \<and> c_int y \<le> 127"
  unfolding c_int_def by (auto simp: floor_le_iff le_floor_iff ceiling_le_iff le_ceiling_iff)

lemma sine_duty_range: "\<bar>fsin ((real p * 2 * pi) / real_of_int sineTableSize)\<bar> \<le> 1 \<Longrightarrow>
    0 \<le> sine_duty fsin p \<and> sine_duty fsin p \<le> 254"
proof -
  assume a: "\<bar>fsin ((real p * 2 * pi) / real_of_int sineTableSize)\<bar> \<le> 1"
  have "\<bar>127 * fsin ((real p * 2 * pi) / real_of_int sineTableSize)\<bar> \<le> 127"
    using a by (simp add: abs_mult)
  from c_int_bounds [OF this] show ?thesis by (simp add: sine_duty_def)
qed

lemma sine_duty_0: "sine_duty sin 0 = 127"
  by (simp add: sine_duty_def c_int_def)

lemma spec_FixedTone_0: "spec_FixedTone 0 = 128"
  by (simp add: spec_FixedTone_def)

lemma pwm_out_map: "pwm_out (map (\<lambda>i. LedcWrite PWM_PIN (f i)) xs) = map f xs"
  by (induction xs) simp_all

lemma phase_period: "(p + 2 * (i + 200)) mod 100 = (p + 2 * i) mod (100 :: nat)"
proof -
  have "p + 2 * (i + 200) = (p + 2 * i) + 100 * 4" by simp
  then show ?thesis by (simp only: mod_mult_self2)
qed

lemma phase_back: "p < 100 \<Longrightarrow> (p + 400) mod 100 = (p :: nat)"
proof -
  assume "p < 100"
  have "(p + 100 * 4) mod 100 = p mod 100" by (simp only: mod_mult_self2)
  then show ?thesis using \<open>p < 100\<close> by simp
qed

lemma phase_moves: "u < 100 \<Longrightarrow> (u + 2) mod 100 \<noteq> (u :: nat)"
proof (cases "u + 2 < 100")
  case True
  then show ?thesis by simp
next
  case False
  assume "u < 100"
  with False have "(u + 2) mod 100 = u + 2 - 100" by (simp add: mod_if)
  with False show ?thesis by simp
qed

subsection \<open>The debounce timer\<close>

lemma startPlayback_trigger_fields:
  "lastTriggerTime (startPlayback b fs s) = lastTriggerTime s
   \<and> lastTriggerState (startPlayback b fs s) = lastTriggerState s
   \<and> triggerState (startPlayback b fs s) = triggerState s"
  by (simp add: startPlayback_def effect_defs Let_def)

lemma checkTrigger_trigger_fields:
  "lastTriggerState (checkTrigger b fs pin now s) = (\<not> pin)"
  "lastTriggerTime (checkTrigger b fs pin now s) =
     (if (\<not> pin) \<noteq> lastTriggerState s then millis now else lastTriggerTime s)"
  "triggerState (checkTrigger b fs pin now s) =
     (if debounceDelay < millis now - lastTriggerTime (checkTrigger b fs pin now s)
         \<and> (\<not> pin) \<noteq> triggerState s
      then (\<not> pin) else triggerState s)"
  by (auto simp add: checkTrigger_def Let_def startPlayback_trigger_fields HIGH_def)

lemma millis_diff: "c \<le> t \<Longrightarrow> millis t - millis c = word_of_nat (t - c)"
  by (simp add: millis_def of_nat_diff)

lemma elapsed_iff:
  assumes "c \<le> t"
  shows "debounceDelay < millis t - millis c \<longleftrightarrow> 50 < (t - c) mod 2 ^ 32"
  unfolding millis_diff [OF assms] debounceDelay_def word_less_nat_alt
  by (simp add: unat_of_nat del: of_nat_diff)

lemma within_window: "c \<le> t \<Longrightarrow> t \<le> c + 50 \<Longrightarrow> \<not> debounceDelay < millis t - millis c"
  by (simp add: elapsed_iff)

lemma burst_quiet:
  assumes "lastTriggerTime s = millis c" and "t0 \<le> c" and "sorted (map snd ps)"
    and "\<forall>x\<in>set ps. c \<le> snd x \<and> snd x \<le> t0 + 50"
  shows "confirmed_transitions b fs ps s = 0 \<and> triggerState (polls b fs ps s) = triggerState s"
  using assms
proof (induction ps arbitrary: s c)
  case Nil
  then show ?case by simp
next
  case (Cons x ps)
  obtain pin t where x: "x = (pin, t)" by (cases x)
  let ?s = "checkTrigger b fs pin t s"
  let ?c = "if (\<not> pin) \<noteq> lastTriggerState s then t else c"
  have t: "c \<le> t" "t \<le> t0 + 50" using Cons.prems(4) x by simp_all
  have time: "lastTriggerTime ?s = millis ?c"
    using Cons.prems(1) by (simp add: checkTrigger_trigger_fields)
  have c: "t0 \<le> ?c" "?c \<le> t" "t \<le> ?c + 50"
    using Cons.prems(2) t by simp_all
  have quiet: "triggerState ?s = triggerState s"
    using within_window [OF c(2,3)] by (simp add: checkTrigger_trigger_fields(3) time)
  have rest: "\<forall>y\<in>set ps. ?c \<le> snd y \<and> snd y \<le> t0 + 50"
  proof
    fix y assume y: "y \<in> set ps"
    then have "t \<le> snd y" using Cons.prems(3) x by auto
    moreover have "snd y \<le> t0 + 50" using Cons.prems(4) y by simp
    ultimately show "?c \<le> snd y \<and> snd y \<le> t0 + 50" using c(2) by linarith
  qed
  have "sorted (map snd ps)" using Cons.prems(3) by simp
  from Cons.IH [OF time c(1) this rest] quiet show ?case
    by (simp add: x)
qed

lemma settled_quiet:
  assumes "\<forall>x\<in>set ps. (\<not> fst x) = triggerState s"
  shows "confirmed_transitions b fs ps s = 0 \<and> triggerState (polls b fs ps s) = triggerState s"
  using assms
proof (induction ps arbitrary: s)
  case Nil
  then show ?case by simp
next
  case (Cons x ps)
  obtain pin t where x: "x = (pin, t)" by (cases x)
  have same: "triggerState (checkTrigger b fs pin t s) = triggerState s"
    using Cons.prems x by (simp add: checkTrigger_trigger_fields(3))
  then have "\<forall>y\<in>set ps. (\<not> fst y) = triggerState (checkTrigger b fs pin t s)"
    using Cons.prems by simp
  from Cons.IH [OF this] same show ?case by (simp add: x)
qed

lemma pending_once:
  assumes "lastTriggerState s = r" and "triggerState s \<noteq> r" and "lastTriggerTime s = millis t0"
    and "\<forall>x\<in>set ps. (\<not> fst x) = r \<and> t0 \<le> snd x"
  shows "confirmed_transitions b fs ps s = (if \<exists>x\<in>set ps. 50 < (snd x - t0) mod 2 ^ 32 then 1 else 0)
     \<and> triggerState (polls b fs ps s) = (if \<exists>x\<in>set ps. 50 < (snd x - t0) mod 2 ^ 32 then r else triggerState s)"
  using assms
proof (induction ps arbitrary: s)
  case Nil
  then show ?case by simp
next
  case (Cons x ps)
  obtain pin t where x: "x = (pin, t)" by (cases x)
  let ?s = "checkTrigger b fs pin t s"
  have r: "(\<not> pin) = r" and t: "t0 \<le> t" using Cons.prems(4) x by simp_all
  have time: "lastTriggerTime ?s = millis t0"
    using Cons.prems(1,3) r by (simp add: checkTrigger_trigger_fields)
  have level: "lastTriggerState ?s = r"
    using r by (simp add: checkTrigger_trigger_fields)
  have rest: "\<forall>y\<in>set ps. (\<not> fst y) = r \<and> t0 \<le> snd y" using Cons.prems(4) by simp
  show ?case
  proof (cases "50 < (t - t0) mod 2 ^ 32")
    case True
    then have flip: "triggerState ?s = r"
      using Cons.prems(2) r elapsed_iff [OF t]
      by (simp add: checkTrigger_trigger_fields(3) time)
    have "\<forall>y\<in>set ps. (\<not> fst y) = triggerState ?s" using rest flip by simp
    from settled_quiet [OF this, of b fs] flip Cons.prems(2) True show ?thesis
      by (auto simp add: x)
  next
    case False
    then have keep: "triggerState ?s = triggerState s"
      using elapsed_iff [OF t] by (simp add: checkTrigger_trigger_fields(3) time)
    then have "triggerState ?s \<noteq> r" using Cons.prems(2) by simp
    from Cons.IH [OF level this time rest] keep False show ?thesis
      by (simp add: x)
  qed
qed

section \<open>Replaying a file (C1)\<close>

text \<open>
  C1. Let the audio resource hold the bytes \<open>B\<close> and open without error, and let a session
  be started in any state. Then every prefix of at most \<open>length B\<close> callbacks leaves the
  session active with the read position at the number of callbacks made, and has read and
  written to the carrier exactly the first bytes of \<open>B\<close>, in order, one per callback. The
  callback after \<open>length B\<close> reads closes the file, clears \<open>isPlaying\<close>, prints the
  finished line once and writes the silence byte 0. Any number of callbacks after that
  leave the session inactive and the handle closed, and add no file operation (no read,
  no close, no open) and no serial output to the trace.
\<close>

theorem playback_replays_file:
  assumes "files fs audioFilePath = Some B" and "\<not> open_fails fs"
    and "length pre \<le> length B" and "length adcs = length B"
  shows "let s1 = startPlayback b fs s0;
             sk = ticks b fsin pre s1;
             s2 = ticks b fsin adcs s1;
             s3 = modulate b fsin adc s2;
             s4 = ticks b fsin later s3
         in isPlaying s1 \<and> audioFile s1 = Some \<lparr>data = B, pos = 0\<rparr>
          \<and> isPlaying sk \<and> audioFile sk = Some \<lparr>data = B, pos = length pre\<rparr>
          \<and> trace sk = trace s1 @ concat (map (\<lambda>c. [FileRead (uint c), LedcWrite PWM_PIN (uint c)])
                                            (take (length pre) B))
          \<and> isPlaying s2
          \<and> trace s2 = trace s1 @ concat (map (\<lambda>c. [FileRead (uint c), LedcWrite PWM_PIN (uint c)]) B)
          \<and> \<not> isPlaying s3 \<and> audioFile s3 = None
          \<and> trace s3 = trace s2 @ [FileClose] @ led_ready b
                          @ [SerialPrintln finished_line, LedcWrite PWM_PIN 0]
          \<and> \<not> isPlaying s4 \<and> audioFile s4 = None
          \<and> prefix (trace s3) (trace s4)
          \<and> file_events (trace s4) = file_events (trace s3)
          \<and> serial_events (trace s4) = serial_events (trace s3)"
proof -
  let ?s1 = "startPlayback b fs s0"
  let ?sk = "ticks b fsin pre ?s1"
  let ?s2 = "ticks b fsin adcs ?s1"
  let ?s3 = "modulate b fsin adc ?s2"
  let ?s4 = "ticks b fsin later ?s3"
  have s1: "isPlaying ?s1" "audioFile ?s1 = Some \<lparr>data = B, pos = 0\<rparr>"
    by (simp_all add: startPlayback_ok [OF assms(1,2)])
  have sk: "isPlaying ?sk \<and> audioFile ?sk = Some \<lparr>data = B, pos = 0 + length pre\<rparr>
     \<and> trace ?sk = trace ?s1 @ concat (map (\<lambda>c. [FileRead (uint c), LedcWrite PWM_PIN (uint c)])
                                       (take (length pre) (drop 0 B)))"
    by (rule ticks_reading [OF s1]) (use assms(3) in simp)
  have s2: "isPlaying ?s2 \<and> audioFile ?s2 = Some \<lparr>data = B, pos = 0 + length adcs\<rparr>
     \<and> trace ?s2 = trace ?s1 @ concat (map (\<lambda>c. [FileRead (uint c), LedcWrite PWM_PIN (uint c)])
                                       (take (length adcs) (drop 0 B)))"
    by (rule ticks_reading [OF s1]) (use assms(4) in simp)
  have s3: "?s3 = ?s2\<lparr>audioFile := None, isPlaying := False,
             trace := trace ?s2 @ [FileClose] @ led_ready b @ [SerialPrintln finished_line, LedcWrite PWM_PIN 0]\<rparr>"
    by (rule modulate_eof [where f = "\<lparr>data = B, pos = 0 + length adcs\<rparr>"])
       (use s2 assms(4) in simp_all)
  have n3: "\<not> isPlaying ?s3" "audioFile ?s3 = None"
    "trace ?s3 = trace ?s2 @ [FileClose] @ led_ready b @ [SerialPrintln finished_line, LedcWrite PWM_PIN 0]"
    by (simp_all add: s3)
  note s4 = ticks_stopped [OF n3(1), of b fsin later]
  show ?thesis
    unfolding Let_def using s1 sk s2 n3 s4 assms(4) by simp
qed

theorem playback_replays_file_witness:
  "files (demo_fs [10, 200, 0]) audioFilePath = Some [10, 200, 0]
   \<and> \<not> open_fails (demo_fs [10, 200, 0])
   \<and> length [0 :: 16 word, 0] \<le> length [10 :: 8 word, 200, 0]
   \<and> length [0 :: 16 word, 0, 0] = length [10 :: 8 word, 200, 0]
   \<and> trace (ticks shipped sin [0, 0] (startPlayback shipped (demo_fs [10, 200, 0]) initial)) =
        [FsOpen ''/audio.raw'' True,
         SerialPrintf ''Starting playback: %d bytes, %.1f seconds\<newline>'' [3, 5153961 / 68719476736],
         FileRead 10, LedcWrite 16 10, FileRead 200, LedcWrite 16 200]
   \<and> trace (modulate shipped sin 0
         (ticks shipped sin [0, 0, 0] (startPlayback shipped (demo_fs [10, 200, 0]) initial))) =
        [FsOpen ''/audio.raw'' True,
         SerialPrintf ''Starting playback: %d bytes, %.1f seconds\<newline>'' [3, 5153961 / 68719476736],
         FileRead 10, LedcWrite 16 10, FileRead 200, LedcWrite 16 200, FileRead 0, LedcWrite 16 0,
         FileClose, SerialPrintln finished_line, LedcWrite 16 0]
   \<and> file_events (trace (ticks shipped sin [0, 0, 0] (modulate shipped sin 0
         (ticks shipped sin [0, 0, 0] (startPlayback shipped (demo_fs [10, 200, 0]) initial))))) =
        [FsOpen ''/audio.raw'' True, FileRead 10, FileRead 200, FileRead 0, FileClose]
   \<and> serial_events (trace (ticks shipped sin [0, 0, 0] (modulate shipped sin 0
         (ticks shipped sin [0, 0, 0] (startPlayback shipped (demo_fs [10, 200, 0]) initial))))) =
        [SerialPrintf ''Starting playback: %d bytes, %.1f seconds\<newline>'' [3, 5153961 / 68719476736],
         SerialPrintln finished_line]"
proof -
  have h1: "files (demo_fs [10, 200, 0]) audioFilePath = Some [10, 200, 0]"
    by (simp add: demo_fs_def)
  have h2: "\<not> open_fails (demo_fs [10, 200, 0])"
    by (simp add: demo_fs_def)
  have h3: "length [0 :: 16 word, 0] \<le> length [10 :: 8 word, 200, 0]" by simp
  have h4: "length [0 :: 16 word, 0, 0] = length [10 :: 8 word, 200, 0]" by simp
  have s1: "trace (startPlayback shipped (demo_fs [10, 200, 0]) initial) =
     [FsOpen ''/audio.raw'' True,
      SerialPrintf ''Starting playback: %d bytes, %.1f seconds\<newline>'' [3, 5153961 / 68719476736]]"
    using duration_3
    by (simp add: startPlayback_ok [OF h1 h2] led_play_def shipped_def initial_def audioFilePath_def)
  have led: "\<not> ENABLE_STATUS_LED shipped" by (simp add: shipped_def)
  show ?thesis
    using playback_replays_file [OF h1 h2 h3 h4, of shipped initial sin 0 "[0, 0, 0]"] h1 h2
    by (simp add: Let_def s1 led_ready_def led PWM_PIN_def file_events_def serial_events_def)
qed

section \<open>File playback and the fallback sources (C2)\<close>

text \<open>
  C2 as stated fails in the callback that finds the file exhausted: the session is active
  when the callback is entered, no byte of the file remains, and the duty written is 0.
  Here: the three-byte file after three callbacks.
\<close>

theorem active_session_at_end_writes_silence:
  "isPlaying (ticks shipped sin [0, 0, 0] (startPlayback shipped (demo_fs [10, 200, 0]) initial))
   \<and> audioFile (ticks shipped sin [0, 0, 0] (startPlayback shipped (demo_fs [10, 200, 0]) initial))
       = Some \<lparr>data = [10, 200, 0], pos = 3\<rparr>
   \<and> next_byte (ticks shipped sin [0, 0, 0] (startPlayback shipped (demo_fs [10, 200, 0]) initial))
       = None
   \<and> last (trace (modulate shipped sin 0
         (ticks shipped sin [0, 0, 0] (startPlayback shipped (demo_fs [10, 200, 0]) initial))))
       = LedcWrite PWM_PIN 0"
proof -
  let ?s1 = "startPlayback shipped (demo_fs [10, 200, 0]) initial"
  let ?s = "ticks shipped sin [0, 0, 0] ?s1"
  have h: "files (demo_fs [10, 200, 0]) audioFilePath = Some [10, 200, 0]"
    "\<not> open_fails (demo_fs [10, 200, 0])"
    by (simp_all add: demo_fs_def)
  have s1: "isPlaying ?s1" "audioFile ?s1 = Some \<lparr>data = [10, 200, 0], pos = 0\<rparr>"
    by (simp_all add: startPlayback_ok [OF h])
  have r: "isPlaying ?s \<and> audioFile ?s = Some \<lparr>data = [10, 200, 0], pos = 0 + length [0 :: 16 word, 0, 0]\<rparr>
     \<and> trace ?s = trace ?s1 @ concat (map (\<lambda>c. [FileRead (uint c), LedcWrite PWM_PIN (uint c)])
         (take (length [0 :: 16 word, 0, 0]) (drop 0 [10 :: 8 word, 200, 0])))"
    using ticks_reading [OF s1, of "[0, 0, 0]" shipped sin] by simp
  then have a: "isPlaying ?s" "audioFile ?s = Some \<lparr>data = [10, 200, 0], pos = 3\<rparr>"
    by simp_all
  have n: "next_byte ?s = None" unfolding next_byte_def a(2) by simp
  have m: "modulate shipped sin 0 ?s = ?s\<lparr>audioFile := None, isPlaying := False,
             trace := trace ?s @ [FileClose] @ led_ready shipped @ [SerialPrintln finished_line, LedcWrite PWM_PIN 0]\<rparr>"
    by (rule modulate_eof [OF a]) simp
  have "last (trace (modulate shipped sin 0 ?s)) = LedcWrite PWM_PIN 0"
    unfolding m by simp
  with a n show ?thesis by simp
qed

text \<open>
  C2, amended. In every callback entered with a session active, the duty written to the
  carrier is the next byte of the open file when one remains and the silence byte 0 in the
  callback that detects the end of the stream; the whole effect of the callback is the
  same whichever of \<^verbatim>\<open>TEST_MODE_DC\<close>, \<^verbatim>\<open>TEST_MODE_SINE\<close> and \<^verbatim>\<open>ENABLE_LIVE_INPUT\<close> the
  build defines, whatever \<^verbatim>\<open>sin\<close> computes and whatever the ADC reads. So the fallback
  branch is not taken while a session is active.
\<close>

theorem file_preempts_fallback:
  assumes "isPlaying s" and "audioFile s = Some f"
  shows "last (trace (modulate b fsin adc s)) =
           LedcWrite PWM_PIN (if pos f < length (data f) then uint (data f ! pos f) else 0)
         \<and> modulate (b\<lparr>TEST_MODE_DC := dc, TEST_MODE_SINE := sine, ENABLE_LIVE_INPUT := live\<rparr>)
              fsin' adc' s = modulate b fsin adc s"
proof (cases "pos f < length (data f)")
  case True
  then show ?thesis by (simp add: modulate_read [OF assms True])
next
  case False
  then show ?thesis by (simp add: modulate_eof [OF assms False] led_ready_def)
qed

theorem file_preempts_fallback_witness:
  "isPlaying (startPlayback shipped (demo_fs [10, 200, 0]) initial)
   \<and> audioFile (startPlayback shipped (demo_fs [10, 200, 0]) initial)
       = Some \<lparr>data = [10, 200, 0], pos = 0\<rparr>
   \<and> last (trace (modulate shipped sin 0 (startPlayback shipped (demo_fs [10, 200, 0]) initial)))
       = LedcWrite PWM_PIN 10
   \<and> modulate live_build sin 4095 (startPlayback shipped (demo_fs [10, 200, 0]) initial)
       = modulate shipped sin 0 (startPlayback shipped (demo_fs [10, 200, 0]) initial)"
proof -
  let ?s = "startPlayback shipped (demo_fs [10, 200, 0]) initial"
  have h: "files (demo_fs [10, 200, 0]) audioFilePath = Some [10, 200, 0]"
    "\<not> open_fails (demo_fs [10, 200, 0])"
    by (simp_all add: demo_fs_def)
  have a: "isPlaying ?s" "audioFile ?s = Some \<lparr>data = [10, 200, 0], pos = 0\<rparr>"
    by (simp_all add: startPlayback_ok [OF h])
  have l: "live_build = shipped\<lparr>TEST_MODE_DC := False, TEST_MODE_SINE := False, ENABLE_LIVE_INPUT := True\<rparr>"
    by (simp add: live_build_def shipped_def)
  show ?thesis
    using file_preempts_fallback [OF a, where b = shipped and fsin = sin and adc = 0
        and dc = False and sine = False and live = True and fsin' = sin and adc' = 4095] a
    by (simp add: l)
qed

section \<open>Triggers during playback (C3)\<close>

text \<open>
  C3 as stated fails for a call of \<^verbatim>\<open>startPlayback\<close> itself: the routine has no guard, and
  called in a state with an active session (here after one byte of three was played) it
  opens the file again and playback restarts at byte 0.
\<close>

theorem startPlayback_reopens_while_playing:
  "isPlaying (ticks shipped sin [0] (startPlayback shipped (demo_fs [10, 200, 0]) initial))
   \<and> audioFile (ticks shipped sin [0] (startPlayback shipped (demo_fs [10, 200, 0]) initial))
       = Some \<lparr>data = [10, 200, 0], pos = 1\<rparr>
   \<and> audioFile (startPlayback shipped (demo_fs [10, 200, 0])
         (ticks shipped sin [0] (startPlayback shipped (demo_fs [10, 200, 0]) initial)))
       = Some \<lparr>data = [10, 200, 0], pos = 0\<rparr>
   \<and> file_events (emitted (ticks shipped sin [0] (startPlayback shipped (demo_fs [10, 200, 0]) initial))
        (startPlayback shipped (demo_fs [10, 200, 0])
         (ticks shipped sin [0] (startPlayback shipped (demo_fs [10, 200, 0]) initial))))
       = [FsOpen audioFilePath True]"
proof -
  let ?fs = "demo_fs [10, 200, 0]"
  let ?s1 = "startPlayback shipped ?fs initial"
  let ?s = "ticks shipped sin [0] ?s1"
  have h: "files ?fs audioFilePath = Some [10, 200, 0]" "\<not> open_fails ?fs"
    by (simp_all add: demo_fs_def)
  have s1: "isPlaying ?s1" "audioFile ?s1 = Some \<lparr>data = [10, 200, 0], pos = 0\<rparr>"
    by (simp_all add: startPlayback_ok [OF h])
  have r: "isPlaying ?s \<and> audioFile ?s = Some \<lparr>data = [10, 200, 0], pos = 0 + length [0 :: 16 word]\<rparr>
     \<and> trace ?s = trace ?s1 @ concat (map (\<lambda>c. [FileRead (uint c), LedcWrite PWM_PIN (uint c)])
                                       (take (length [0 :: 16 word]) (drop 0 [10 :: 8 word, 200, 0])))"
    using ticks_reading [OF s1, of "[0]" shipped sin] by simp
  have led: "led_play shipped = []" by (simp add: led_play_def shipped_def)
  note o = startPlayback_ok [OF h, of shipped ?s]
  have a: "audioFile (startPlayback shipped ?fs ?s) = Some \<lparr>data = [10, 200, 0], pos = 0\<rparr>"
    unfolding o by simp
  have e: "file_events (emitted ?s (startPlayback shipped ?fs ?s)) = [FsOpen audioFilePath True]"
    unfolding o by (simp add: file_events_def led)
  from r a e show ?thesis by simp
qed

text \<open>
  C3, amended. The guard is in \<^verbatim>\<open>checkTrigger\<close>, the only caller of \<^verbatim>\<open>startPlayback\<close>.
  (1) In every state with an active session, a pass of \<^verbatim>\<open>checkTrigger\<close> (with any pin level
  and clock, so also one that confirms a rising edge) leaves the session active and the
  file handle, the phase and the trace unchanged: nothing is opened, read or printed.
  (2) A step that ends an active session is a timer callback that found the open file
  exhausted. (3) In every state reached from the initial globals the playing flag is set
  exactly when the handle is open, and the sessions opened so far are the sessions closed
  plus the one that is active, if any: at most one session is active at any time.
\<close>

theorem trigger_ignored_while_playing:
  "(isPlaying s \<longrightarrow>
      isPlaying (checkTrigger b fs pin now s)
      \<and> audioFile (checkTrigger b fs pin now s) = audioFile s
      \<and> sinePhase (checkTrigger b fs pin now s) = sinePhase s
      \<and> trace (checkTrigger b fs pin now s) = trace s)
   \<and> (isPlaying s \<and> \<not> isPlaying (exec b fsin fs st s) \<longrightarrow>
        (\<exists>adc f. st = Tick adc \<and> audioFile s = Some f \<and> File_available f = 0))
   \<and> (isPlaying (run b fsin fs' sts initial) \<longleftrightarrow> audioFile (run b fsin fs' sts initial) \<noteq> None)
   \<and> sessions_opened (trace (run b fsin fs' sts initial))
       = sessions_closed (trace (run b fsin fs' sts initial))
         + (if isPlaying (run b fsin fs' sts initial) then 1 else 0)"
proof -
  have "well_formed (run b fsin fs' sts initial)"
    by (rule well_formed_run [OF well_formed_initial])
  then show ?thesis
    using session_ends_only_at_eof [of s b fsin fs st]
    by (simp add: checkTrigger_playing well_formed_def)
qed

theorem trigger_ignored_while_playing_witness:
  "isPlaying (run shipped sin (demo_fs [10, 200, 0]) press_release_press initial)
   \<and> \<not> triggerState (run shipped sin (demo_fs [10, 200, 0]) press_release_press initial)
   \<and> triggerState (checkTrigger shipped (demo_fs [10, 200, 0]) False 500
        (run shipped sin (demo_fs [10, 200, 0]) press_release_press initial))
   \<and> trace (checkTrigger shipped (demo_fs [10, 200, 0]) False 500
        (run shipped sin (demo_fs [10, 200, 0]) press_release_press initial))
      = trace (run shipped sin (demo_fs [10, 200, 0]) press_release_press initial)
   \<and> audioFile (checkTrigger shipped (demo_fs [10, 200, 0]) False 500
        (run shipped sin (demo_fs [10, 200, 0]) press_release_press initial))
      = audioFile (run shipped sin (demo_fs [10, 200, 0]) press_release_press initial)
   \<and> isPlaying (startPlayback shipped (demo_fs []) initial)
   \<and> \<not> isPlaying (exec shipped sin (demo_fs []) (Tick 0) (startPlayback shipped (demo_fs []) initial))
   \<and> audioFile (startPlayback shipped (demo_fs []) initial) = Some \<lparr>data = [], pos = 0\<rparr>
   \<and> sessions_opened (trace (run shipped sin (demo_fs [10, 200, 0]) press_release_press initial))
      = sessions_closed (trace (run shipped sin (demo_fs [10, 200, 0]) press_release_press initial)) + 1"
proof -
  let ?fs = "demo_fs [10, 200, 0]"
  let ?s = "run shipped sin ?fs press_release_press initial"
  let ?e = "startPlayback shipped (demo_fs []) initial"
  have h: "files ?fs audioFilePath = Some [10, 200, 0]" "\<not> open_fails ?fs"
    by (simp_all add: demo_fs_def)
  have h0: "files (demo_fs []) audioFilePath = Some []" "\<not> open_fails (demo_fs [])"
    by (simp_all add: demo_fs_def)
  have p: "isPlaying ?s"
    by (simp add: press_release_press_state startPlayback_ok [OF h])
  have n: "\<not> triggerState ?s"
    by (simp add: press_release_press_state)
  have t: "triggerState (checkTrigger shipped ?fs False 500 ?s)"
    by (simp add: checkTrigger_playing [OF p] debounceDelay_def) (simp add: press_release_press_state)
  have e: "isPlaying ?e" "audioFile ?e = Some \<lparr>data = [], pos = 0\<rparr>"
    by (simp_all add: startPlayback_ok [OF h0])
  have x: "\<not> isPlaying (exec shipped sin (demo_fs []) (Tick 0) ?e)"
    by (simp add: modulate_eof [OF e])
  note w1 = trigger_ignored_while_playing [where s = ?s and b = shipped and fs = ?fs and pin = False
      and now = 500 and fsin = sin and st = "Tick 0" and fs' = ?fs and sts = press_release_press]
  show ?thesis
    using w1 p n t e x by simp
qed

section \<open>Debouncing the trigger (C4)\<close>

text \<open>
  C4. The clock is the true time in milliseconds; the sketch sees it cut to 32 bits.
  (1) Let a pass of \<^verbatim>\<open>checkTrigger\<close> at time \<open>t0\<close> see a raw level that differs from the
  level of the pass before, and let any passes follow, with any levels, at non-decreasing
  times up to \<open>t0 + 50\<close>. Then no pass of them changes the confirmed level.
  (2) Let a pass at time \<open>t0'\<close> see a raw level that differs from the level of the pass
  before and from the confirmed level, and let passes follow that all see this same
  level, at times from \<open>t0'\<close> on, one of them more than 50 ms after \<open>t0'\<close> on the 32-bit
  clock. Then exactly one of these passes changes the confirmed level, and the confirmed
  level ends as the new raw level (the inverted pin: the input is active low).
\<close>

theorem debounce_window:
  "((\<not> pin) \<noteq> lastTriggerState s \<and> sorted (t0 # map snd rest)
      \<and> (\<forall>x\<in>set rest. snd x \<le> t0 + 50)
     \<longrightarrow> confirmed_transitions b fs ((pin, t0) # rest) s = 0
         \<and> triggerState (polls b fs ((pin, t0) # rest) s) = triggerState s)
   \<and> ((\<not> pin') \<noteq> lastTriggerState s' \<and> (\<not> pin') \<noteq> triggerState s'
      \<and> (\<forall>x\<in>set rest'. fst x = pin' \<and> t0' \<le> snd x)
      \<and> (\<exists>x\<in>set rest'. 50 < (snd x - t0') mod 2 ^ 32)
     \<longrightarrow> confirmed_transitions b fs ((pin', t0') # rest') s' = 1
         \<and> triggerState (polls b fs ((pin', t0') # rest') s') = (\<not> pin'))"
proof (intro conjI impI)
  assume a: "(\<not> pin) \<noteq> lastTriggerState s \<and> sorted (t0 # map snd rest)
      \<and> (\<forall>x\<in>set rest. snd x \<le> t0 + 50)"
  let ?s = "checkTrigger b fs pin t0 s"
  have time: "lastTriggerTime ?s = millis t0"
    using a by (simp add: checkTrigger_trigger_fields)
  have quiet: "triggerState ?s = triggerState s"
    using within_window [of t0 t0] by (simp add: checkTrigger_trigger_fields(3) time)
  have rest: "\<forall>x\<in>set rest. t0 \<le> snd x \<and> snd x \<le> t0 + 50" using a by auto
  have "sorted (map snd rest)" using a by simp
  note q = burst_quiet [OF time order_refl this rest, of b fs]
  from q quiet show "confirmed_transitions b fs ((pin, t0) # rest) s = 0" by simp
  from q quiet show "triggerState (polls b fs ((pin, t0) # rest) s) = triggerState s" by simp
next
  assume a: "(\<not> pin') \<noteq> lastTriggerState s' \<and> (\<not> pin') \<noteq> triggerState s'
      \<and> (\<forall>x\<in>set rest'. fst x = pin' \<and> t0' \<le> snd x)
      \<and> (\<exists>x\<in>set rest'. 50 < (snd x - t0') mod 2 ^ 32)"
  let ?s = "checkTrigger b fs pin' t0' s'"
  have time: "lastTriggerTime ?s = millis t0'"
    using a by (simp add: checkTrigger_trigger_fields)
  have level: "lastTriggerState ?s = (\<not> pin')"
    by (simp add: checkTrigger_trigger_fields)
  have quiet: "triggerState ?s = triggerState s'"
    using within_window [of t0' t0'] by (simp add: checkTrigger_trigger_fields(3) time)
  have "(\<not> pin') \<noteq> triggerState s'" using a by blast
  then have differs: "triggerState ?s \<noteq> (\<not> pin')" unfolding quiet by blast
  have rest: "\<forall>x\<in>set rest'. (\<not> fst x) = (\<not> pin') \<and> t0' \<le> snd x" using a by simp
  have ex: "\<exists>x\<in>set rest'. 50 < (snd x - t0') mod 2 ^ 32" using a by simp
  note p = pending_once [OF level differs time rest, of b fs]
  from p quiet ex show "confirmed_transitions b fs ((pin', t0') # rest') s' = 1" by simp
  from p ex show "triggerState (polls b fs ((pin', t0') # rest') s') = (\<not> pin')" by simp
qed

theorem debounce_window_witness:
  "(\<not> False) \<noteq> lastTriggerState initial
   \<and> sorted (1000 # map snd [(True, 1010), (False, 1020), (True, 1030 :: nat)])
   \<and> Max (snd ` set [(True, 1010), (False, 1020), (True, 1030 :: nat)]) \<le> 1000 + 50
   \<and> confirmed_transitions shipped (demo_fs [10, 200, 0]) bounce initial = 0
   \<and> (\<not> False) \<noteq> triggerState initial
   \<and> Min (snd ` set (tl held)) = 1010 \<and> fst ` set (tl held) = {False}
   \<and> 50 < (snd (last held) - 1000) mod 2 ^ 32
   \<and> confirmed_transitions shipped (demo_fs [10, 200, 0]) held initial = 1
   \<and> triggerState (polls shipped (demo_fs [10, 200, 0]) held initial)"
proof -
  have b: "bounce = (False, 1000) # [(True, 1010), (False, 1020), (True, 1030)]"
    by (simp add: bounce_def)
  have h: "held = (False, 1000) # tl held" by (simp add: held_def)
  have i: "\<not> lastTriggerState initial" "\<not> triggerState initial"
    by (simp_all add: initial_def LOW_def)
  have h1: "(\<not> False) \<noteq> lastTriggerState initial
      \<and> sorted (1000 # map snd [(True, 1010), (False, 1020), (True, 1030 :: nat)])
      \<and> (\<forall>x\<in>set [(True, 1010), (False, 1020), (True, 1030 :: nat)]. snd x \<le> 1000 + 50)"
    using i by simp
  have h2: "(\<not> False) \<noteq> lastTriggerState initial \<and> (\<not> False) \<noteq> triggerState initial
      \<and> (\<forall>x\<in>set (tl held). fst x = False \<and> 1000 \<le> snd x)
      \<and> (\<exists>x\<in>set (tl held). 50 < (snd x - 1000) mod 2 ^ 32)"
    using i by (simp add: held_def)
  note w = debounce_window [where pin = False and s = initial and ?t0.0 = 1000
      and rest = "[(True, 1010), (False, 1020), (True, 1030)]" and b = shipped
      and fs = "demo_fs [10, 200, 0]" and pin' = False and s' = initial and t0' = 1000
      and rest' = "tl held"]
  from w h1 have 1: "confirmed_transitions shipped (demo_fs [10, 200, 0]) bounce initial = 0"
    unfolding b by blast
  from w h2 have 2: "confirmed_transitions shipped (demo_fs [10, 200, 0]) held initial = 1
      \<and> triggerState (polls shipped (demo_fs [10, 200, 0]) held initial)"
    using h by (metis (full_types))
  have 3: "Max (snd ` set [(True, 1010), (False, 1020), (True, 1030 :: nat)]) \<le> 1000 + 50"
    "Min (snd ` set (tl held)) = 1010" "fst ` set (tl held) = {False}"
    "50 < (snd (last held) - 1000) mod 2 ^ 32"
    by (simp_all add: held_def)
  from i 1 2 3 show ?thesis by simp
qed

section \<open>The sine test tone, one call (C5)\<close>

text \<open>
  C5 as stated fails at phase 0 already: the sketch writes \<open>127 + (int)(127.0 * sin 0)\<close>,
  that is 127, where the formula of the claim gives \<open>128 + round 0\<close>, that is 128; and the
  phase after the call is 2, not 2.5, since the accumulator is an \<^verbatim>\<open>unsigned int\<close> and the
  increment is cast to \<^verbatim>\<open>int\<close>.
\<close>

theorem sine_duty_at_phase_zero:
  "unat (sinePhase initial) = 0
   \<and> last (trace (modulate shipped sin 0 initial)) = LedcWrite PWM_PIN 127
   \<and> spec_FixedTone 0 = 128
   \<and> unat (sinePhase (modulate shipped sin 0 initial)) = 2
   \<and> phaseIncrement = 5 / 2"
proof -
  have h: "\<not> TEST_MODE_DC shipped" "TEST_MODE_SINE shipped"
    "\<not> (isPlaying initial \<and> audioFile initial \<noteq> None)"
    by (simp_all add: shipped_def initial_def)
  have z: "sinePhase initial = 0" by (simp add: initial_def)
  note m = sine_tick [OF h, of sin 0]
  have 1: "last (trace (modulate shipped sin 0 initial)) = LedcWrite PWM_PIN 127"
    unfolding m by (simp add: z sine_duty_0)
  have 2: "unat (sinePhase (modulate shipped sin 0 initial)) = 2"
    unfolding m by (simp add: z)
  show ?thesis
    using 1 2 by (simp add: z spec_FixedTone_0 phaseIncrement_def testFreq_def sineTableSize_def)
qed

text \<open>
  C5, amended. In a build in sine test mode, a callback entered without an active session
  and with the phase \<open>p\<close> below the table size writes the duty
  \<open>127 + (int)(127 * sin (p * 2 * pi / N))\<close>, \<open>N = 100\<close>, the cast truncating towards zero,
  for whatever the library's \<^verbatim>\<open>sin\<close> returns there; when that value is within \<open>-1 .. 1\<close>
  the duty lies in \<open>0 .. 254\<close>. The call advances the phase: the phase after the call
  differs from \<open>p\<close>, and it is wrapped, so that it is below \<open>N\<close> again. (By how much the
  phase advances is left open here.)
\<close>

theorem sine_mode_duty:
  assumes "\<not> TEST_MODE_DC b" and "TEST_MODE_SINE b"
    and "\<not> (isPlaying s \<and> audioFile s \<noteq> None)"
    and "unat (sinePhase s) < 100"
    and "\<bar>fsin ((real (unat (sinePhase s)) * 2 * pi) / real_of_int sineTableSize)\<bar> \<le> 1"
  shows "last (trace (modulate b fsin adc s)) =
           LedcWrite PWM_PIN
             (127 + c_int (127 * fsin ((real (unat (sinePhase s)) * 2 * pi) / real_of_int sineTableSize)))
         \<and> 0 \<le> 127 + c_int (127 * fsin ((real (unat (sinePhase s)) * 2 * pi) / real_of_int sineTableSize))
         \<and> 127 + c_int (127 * fsin ((real (unat (sinePhase s)) * 2 * pi) / real_of_int sineTableSize)) \<le> 254
         \<and> sinePhase (modulate b fsin adc s) \<noteq> sinePhase s
         \<and> unat (sinePhase (modulate b fsin adc s)) < nat sineTableSize"
proof -
  note m = sine_tick [OF assms(1-3), of fsin adc]
  have 1: "last (trace (modulate b fsin adc s)) = LedcWrite PWM_PIN (sine_duty fsin (unat (sinePhase s)))"
    unfolding m by simp
  have 2: "unat (sinePhase (modulate b fsin adc s)) < 100"
    by (rule sinePhase_modulate [OF assms(4)])
  have "unat (sinePhase (modulate b fsin adc s)) = (unat (sinePhase s) + 2) mod 100"
    using sine_wrap_mod [OF assms(4)] by (simp add: m)
  with phase_moves [OF assms(4)]
  have "unat (sinePhase (modulate b fsin adc s)) \<noteq> unat (sinePhase s)" by simp
  then have 3: "sinePhase (modulate b fsin adc s) \<noteq> sinePhase s" by auto
  from 1 2 3 sine_duty_range [where fsin = fsin and p = "unat (sinePhase s)", OF assms(5)] show ?thesis
    by (simp add: sine_duty_def sineTableSize_def)
qed

theorem sine_mode_duty_witness:
  "\<not> TEST_MODE_DC shipped \<and> TEST_MODE_SINE shipped
   \<and> \<not> (isPlaying initial \<and> audioFile initial \<noteq> None)
   \<and> unat (sinePhase initial) < 100
   \<and> \<bar>sin ((real (unat (sinePhase initial)) * 2 * pi) / real_of_int sineTableSize)\<bar> \<le> 1
   \<and> last (trace (modulate shipped sin 0 initial)) = LedcWrite PWM_PIN 127
   \<and> sinePhase (modulate shipped sin 0 initial) \<noteq> 0
   \<and> unat (sinePhase (modulate shipped sin 0 initial)) < 100
   \<and> \<bar>(\<lambda>x. - 1 / 2 :: real) ((real (unat (sinePhase initial)) * 2 * pi) / real_of_int sineTableSize)\<bar> \<le> 1
   \<and> last (trace (modulate shipped (\<lambda>x. - 1 / 2) 0 initial)) = LedcWrite PWM_PIN 64
   \<and> \<not> (isPlaying (initial\<lparr>sinePhase := 98\<rparr>) \<and> audioFile (initial\<lparr>sinePhase := 98\<rparr>) \<noteq> None)
   \<and> unat (sinePhase (initial\<lparr>sinePhase := 98\<rparr>)) < 100
   \<and> \<bar>(\<lambda>x. 1 / 2 :: real) ((real (unat (sinePhase (initial\<lparr>sinePhase := 98\<rparr>))) * 2 * pi)
          / real_of_int sineTableSize)\<bar> \<le> 1
   \<and> last (trace (modulate shipped (\<lambda>x. 1 / 2) 0 (initial\<lparr>sinePhase := 98\<rparr>))) = LedcWrite PWM_PIN 190
   \<and> sinePhase (modulate shipped (\<lambda>x. 1 / 2) 0 (initial\<lparr>sinePhase := 98\<rparr>)) \<noteq> 98
   \<and> unat (sinePhase (modulate shipped (\<lambda>x. 1 / 2) 0 (initial\<lparr>sinePhase := 98\<rparr>))) < 100"
proof -
  let ?w = "initial\<lparr>sinePhase := 98\<rparr>"
  have h: "\<not> TEST_MODE_DC shipped" "TEST_MODE_SINE shipped"
    "\<not> (isPlaying initial \<and> audioFile initial \<noteq> None)"
    "unat (sinePhase initial) < 100"
    "\<bar>sin ((real (unat (sinePhase initial)) * 2 * pi) / real_of_int sineTableSize)\<bar> \<le> 1"
    by (simp_all add: shipped_def initial_def)
  have n: "\<bar>(\<lambda>x. - 1 / 2 :: real) ((real (unat (sinePhase initial)) * 2 * pi) / real_of_int sineTableSize)\<bar> \<le> 1"
    by simp
  have w: "\<not> (isPlaying ?w \<and> audioFile ?w \<noteq> None)" "unat (sinePhase ?w) < 100"
    "\<bar>(\<lambda>x. 1 / 2 :: real) ((real (unat (sinePhase ?w)) * 2 * pi) / real_of_int sineTableSize)\<bar> \<le> 1"
    by (simp_all add: initial_def)
  have z: "unat (sinePhase initial) = 0" "sinePhase initial = 0" by (simp_all add: initial_def)
  have zw: "sinePhase ?w = 98" by simp
  note a = sine_mode_duty [where b = shipped and s = initial and fsin = sin and adc = 0, OF h]
  note b = sine_mode_duty [where b = shipped and s = initial and fsin = "\<lambda>x. - 1 / 2" and adc = 0,
      OF h(1-4) n]
  note c = sine_mode_duty [where b = shipped and s = ?w and fsin = "\<lambda>x. 1 / 2" and adc = 0,
      OF h(1,2) w]
  from a have 1: "last (trace (modulate shipped sin 0 initial)) = LedcWrite PWM_PIN 127"
    "sinePhase (modulate shipped sin 0 initial) \<noteq> 0"
    "unat (sinePhase (modulate shipped sin 0 initial)) < 100"
    by (simp_all add: z c_int_def sineTableSize_def)
  from b have 2: "last (trace (modulate shipped (\<lambda>x. - 1 / 2) 0 initial)) = LedcWrite PWM_PIN 64"
    by (simp add: c_int_def)
  from c have 3: "last (trace (modulate shipped (\<lambda>x. 1 / 2) 0 ?w)) = LedcWrite PWM_PIN 190"
    "sinePhase (modulate shipped (\<lambda>x. 1 / 2) 0 ?w) \<noteq> 98"
    "unat (sinePhase (modulate shipped (\<lambda>x. 1 / 2) 0 ?w)) < 100"
    by (simp_all add: zw c_int_def sineTableSize_def)
  from h n w 1 2 3 show ?thesis by simp
qed

section \<open>The sine test tone, the sequence (C6)\<close>

text \<open>
  C6 as stated fails at the first sample: from the initial globals the shipped build
  writes 127, and the formula of the claim gives 128 at \<open>i = 0\<close>.
\<close>

theorem first_tone_sample:
  "pwm_out (emitted initial (ticks shipped sin [0] initial)) = [127]
   \<and> spec_FixedTone (0 * (5 / 2)) = 128"
proof -
  have h: "\<not> TEST_MODE_DC shipped" "TEST_MODE_SINE shipped" "\<not> isPlaying initial"
    "unat (sinePhase initial) < 100"
    by (simp_all add: shipped_def initial_def)
  have z: "unat (sinePhase initial) = 0" by (simp add: initial_def)
  have "emitted initial (ticks shipped sin [0] initial) = [LedcWrite PWM_PIN (sine_duty sin 0)]"
    using sine_ticks [OF h, of sin "[0]"] by (simp add: z)
  then show ?thesis by (simp add: sine_duty_0 spec_FixedTone_0)
qed

text \<open>
  C6, amended. In a build in sine test mode, from any state without an active session and
  with the phase below the table size, consecutive callbacks write one duty each; the
  sequence repeats every 200 samples (sample \<open>i + 200\<close> equals sample \<open>i\<close>), sample \<open>i\<close> is
  \<open>127 + (int)(127 * sin (p\<^sub>i * 2 * pi / 100))\<close> for the phase \<open>p\<^sub>i\<close> the accumulator holds
  before callback \<open>i\<close>, and after 200 callbacks the accumulator is back at its value.
\<close>

theorem tone_repeats:
  assumes "\<not> TEST_MODE_DC b" and "TEST_MODE_SINE b" and "\<not> isPlaying s"
    and "unat (sinePhase s) < 100"
  shows "length (pwm_out (emitted s (ticks b fsin adcs s))) = length adcs
     \<and> (\<forall>i. i + 200 < length adcs \<longrightarrow>
           pwm_out (emitted s (ticks b fsin adcs s)) ! (i + 200)
             = pwm_out (emitted s (ticks b fsin adcs s)) ! i)
     \<and> (\<forall>i. i < length adcs \<longrightarrow>
           pwm_out (emitted s (ticks b fsin adcs s)) ! i
             = sine_duty fsin (unat (sinePhase (ticks b fsin (take i adcs) s))))
     \<and> (length adcs = 200 \<longrightarrow> sinePhase (ticks b fsin adcs s) = sinePhase s)"
proof -
  let ?p = "unat (sinePhase s)"
  let ?out = "pwm_out (emitted s (ticks b fsin adcs s))"
  note t = sine_ticks [OF assms]
  have e: "emitted s (ticks b fsin adcs s) =
      map (\<lambda>i. LedcWrite PWM_PIN (sine_duty fsin ((?p + 2 * i) mod 100))) [0 ..< length adcs]"
    using t [of fsin adcs] by (elim conjE)
  have out: "?out = map (\<lambda>i. sine_duty fsin ((?p + 2 * i) mod 100)) [0 ..< length adcs]"
    unfolding e by (rule pwm_out_map)
  have len: "length ?out = length adcs" unfolding out by simp
  have nth: "?out ! i = sine_duty fsin ((?p + 2 * i) mod 100)" if "i < length adcs" for i
    unfolding out using that by simp
  have per: "?out ! (i + 200) = ?out ! i" if "i + 200 < length adcs" for i
  proof -
    have "i < length adcs" using that by simp
    from nth [OF that] nth [OF this] show ?thesis by (simp only: phase_period)
  qed
  have ph: "?out ! i = sine_duty fsin (unat (sinePhase (ticks b fsin (take i adcs) s)))"
    if "i < length adcs" for i
  proof -
    have l: "length (take i adcs) = i" using that by simp
    have "unat (sinePhase (ticks b fsin (take i adcs) s)) = (?p + 2 * length (take i adcs)) mod 100"
      using t [of fsin "take i adcs"] by (elim conjE)
    then have "unat (sinePhase (ticks b fsin (take i adcs) s)) = (?p + 2 * i) mod 100"
      unfolding l .
    then show ?thesis using nth [OF that] by simp
  qed
  have again: "sinePhase (ticks b fsin adcs s) = sinePhase s" if "length adcs = 200"
  proof -
    have "unat (sinePhase (ticks b fsin adcs s)) = (?p + 2 * length adcs) mod 100"
      using t [of fsin adcs] by (elim conjE)
    also have "\<dots> = (?p + 400) mod 100" using that by simp
    also have "\<dots> = ?p" by (rule phase_back [OF assms(4)])
    finally show ?thesis by (rule word_unat_eq_iff [THEN iffD2])
  qed
  show ?thesis
  proof (intro conjI allI impI)
    show "length ?out = length adcs" by (rule len)
  next
    fix i assume "i + 200 < length adcs"
    then show "?out ! (i + 200) = ?out ! i" by (rule per)
  next
    fix i assume "i < length adcs"
    then show "?out ! i = sine_duty fsin (unat (sinePhase (ticks b fsin (take i adcs) s)))" by (rule ph)
  next
    assume "length adcs = 200"
    then show "sinePhase (ticks b fsin adcs s) = sinePhase s" by (rule again)
  qed
qed

theorem tone_repeats_witness:
  "\<not> TEST_MODE_DC shipped \<and> TEST_MODE_SINE shipped \<and> \<not> isPlaying initial
   \<and> unat (sinePhase initial) < 100
   \<and> length (pwm_out (emitted initial (ticks shipped sin (adc_idle 201) initial))) = 201
   \<and> pwm_out (emitted initial (ticks shipped sin (adc_idle 201) initial)) ! 200 = 127
   \<and> sinePhase (ticks shipped sin (adc_idle 200) initial) = 0"
proof -
  have h: "\<not> TEST_MODE_DC shipped" "TEST_MODE_SINE shipped" "\<not> isPlaying initial"
    "unat (sinePhase initial) < 100"
    by (simp_all add: shipped_def initial_def)
  have z: "sinePhase initial = 0" by (simp add: initial_def)
  have l: "length (adc_idle n) = n" for n by (simp add: adc_idle_def)
  note a = tone_repeats [OF h, of sin "adc_idle 201", unfolded l]
  note c = tone_repeats [OF h, of sin "adc_idle 200", unfolded l]
  from a have 1: "length (pwm_out (emitted initial (ticks shipped sin (adc_idle 201) initial))) = 201"
    by (rule conjunct1)
  from a have per: "i + 200 < 201 \<Longrightarrow>
      pwm_out (emitted initial (ticks shipped sin (adc_idle 201) initial)) ! (i + 200)
      = pwm_out (emitted initial (ticks shipped sin (adc_idle 201) initial)) ! i" for i
    by blast
  from a have at: "i < 201 \<Longrightarrow>
      pwm_out (emitted initial (ticks shipped sin (adc_idle 201) initial)) ! i
      = sine_duty sin (unat (sinePhase (ticks shipped sin (take i (adc_idle 201)) initial)))" for i
    by blast
  have "pwm_out (emitted initial (ticks shipped sin (adc_idle 201) initial)) ! (0 + 200)
      = pwm_out (emitted initial (ticks shipped sin (adc_idle 201) initial)) ! 0"
    by (rule per) simp
  also have "\<dots> = sine_duty sin (unat (sinePhase (ticks shipped sin (take 0 (adc_idle 201)) initial)))"
    by (rule at) simp
  also have "\<dots> = 127"
    by (simp add: z sine_duty_0)
  finally have 2: "pwm_out (emitted initial (ticks shipped sin (adc_idle 201) initial)) ! 200 = 127"
    by simp
  from c have 3: "sinePhase (ticks shipped sin (adc_idle 200) initial) = 0"
    by (simp add: z)
  from h 1 2 3 show ?thesis by simp
qed

section \<open>Starting playback (C7)\<close>

text \<open>
  C7 as stated fails in its last clause: \<^verbatim>\<open>durationSeconds\<close> is a \<^verbatim>\<open>float\<close>, so the
  duration logged is the quotient rounded to single precision. For the three-byte file
  the argument of \<^verbatim>\<open>printf\<close> is \<open>5153961 / 2 ^ 36\<close>, not \<open>3 / 40000\<close>.
\<close>

theorem logged_duration_is_rounded:
  "files (demo_fs [10, 200, 0]) audioFilePath = Some [10, 200, 0]
   \<and> \<not> open_fails (demo_fs [10, 200, 0])
   \<and> serial_events (emitted initial (startPlayback shipped (demo_fs [10, 200, 0]) initial))
       = [SerialPrintf ''Starting playback: %d bytes, %.1f seconds\<newline>''
            [3, 5153961 / 68719476736]]
   \<and> real (length [10 :: 8 word, 200, 0]) / 40000 = 3 / 40000
   \<and> (5153961 / 68719476736 :: real) \<noteq> 3 / 40000"
proof -
  have k: "files (demo_fs [10, 200, 0]) audioFilePath = Some [10, 200, 0]"
    "\<not> open_fails (demo_fs [10, 200, 0])"
    by (simp_all add: demo_fs_def)
  have led: "led_play shipped = []" by (simp add: led_play_def shipped_def)
  have "serial_events (emitted initial (startPlayback shipped (demo_fs [10, 200, 0]) initial))
       = [SerialPrintf ''Starting playback: %d bytes, %.1f seconds\<newline>''
            [3, 5153961 / 68719476736]]"
    using duration_3 by (simp add: startPlayback_ok [OF k] serial_events_def led)
  with k show ?thesis by simp
qed

text \<open>
  C7, amended. (1) If no session is active and the resource is missing or cannot be opened,
  then \<^verbatim>\<open>startPlayback\<close> changes nothing but the trace, to which it adds exactly the
  failed open (when the path exists) and one line of serial output naming the failure;
  \<open>isPlaying\<close> stays false and the handle closed. Any callbacks that follow emit exactly
  the events they would have emitted without the call, and leave the same globals.
  (2) If the resource holds \<open>B\<close> and opens, the session is marked active on a handle at
  byte 0, and the routine emits the open, the LED write of the build and one line whose
  duration argument is \<open>length B / 40000\<close> as the sketch computes it: the size converted to
  \<^verbatim>\<open>float\<close>, divided in \<^verbatim>\<open>double\<close> and stored in a \<^verbatim>\<open>float\<close>. That value is within a
  relative error of \<open>2 ^ -22\<close> of the exact quotient. (The one-decimal formatting of
  \<^verbatim>\<open>printf\<close> is not modelled.)
\<close>

theorem startPlayback_outcomes:
  "(\<not> isPlaying s \<and> audioFile s = None \<and> (files fs audioFilePath = None \<or> open_fails fs) \<longrightarrow>
      startPlayback b fs s =
        s\<lparr>trace := trace s @
            (if files fs audioFilePath = None then [SerialPrintln ''Audio file not found'']
             else [FsOpen audioFilePath False, SerialPrintln ''Failed to open audio file''])\<rparr>
      \<and> \<not> isPlaying (startPlayback b fs s)
      \<and> audioFile (startPlayback b fs s) = None
      \<and> emitted (startPlayback b fs s) (ticks b fsin adcs (startPlayback b fs s))
          = emitted s (ticks b fsin adcs s)
      \<and> (ticks b fsin adcs (startPlayback b fs s))\<lparr>trace := []\<rparr> = (ticks b fsin adcs s)\<lparr>trace := []\<rparr>)
   \<and> (files fs' audioFilePath = Some B \<and> \<not> open_fails fs' \<longrightarrow>
      isPlaying (startPlayback b fs' s')
      \<and> audioFile (startPlayback b fs' s') = Some \<lparr>data = B, pos = 0\<rparr>
      \<and> emitted s' (startPlayback b fs' s')
           = [FsOpen audioFilePath True] @ led_play b @
             [SerialPrintf
                (if 1048576 \<le> length B then ''Starting playback: %.2f MB, %.1f seconds\<newline>''
                 else if 1024 \<le> length B then ''Starting playback: %.1f KB, %.1f seconds\<newline>''
                 else ''Starting playback: %d bytes, %.1f seconds\<newline>'')
                [if 1048576 \<le> length B then real (length B) / 1048576
                 else if 1024 \<le> length B then real (length B) / 1024
                 else real (length B),
                 c_float (c_double (c_float (real (length B)) / 40000))]]
      \<and> \<bar>c_float (c_double (c_float (real (length B)) / 40000)) - real (length B) / 40000\<bar>
           \<le> (real (length B) / 40000) / 2 ^ 22)"
proof (intro conjI impI)
  assume a: "\<not> isPlaying s \<and> audioFile s = None \<and> (files fs audioFilePath = None \<or> open_fails fs)"
  let ?report = "if files fs audioFilePath = None then [SerialPrintln ''Audio file not found'']
                 else [FsOpen audioFilePath False, SerialPrintln ''Failed to open audio file'']"
  show e: "startPlayback b fs s = s\<lparr>trace := trace s @ ?report\<rparr>"
  proof (cases "files fs audioFilePath = None")
    case True
    then show ?thesis by (simp add: startPlayback_missing)
  next
    case False
    with a have "open_fails fs" by simp
    from startPlayback_unopenable [OF False this] a False show ?thesis by simp
  qed
  show "\<not> isPlaying (startPlayback b fs s)" using a by (simp add: e)
  show "audioFile (startPlayback b fs s) = None" using a by (simp add: e)
  have t: "ticks b fsin adcs (startPlayback b fs s)
      = (ticks b fsin adcs s)\<lparr>trace := (trace s @ ?report) @ emitted s (ticks b fsin adcs s)\<rparr>"
    unfolding e by (rule ticks_frame)
  show "emitted (startPlayback b fs s) (ticks b fsin adcs (startPlayback b fs s))
          = emitted s (ticks b fsin adcs s)"
    unfolding t by (simp add: e emitted_def)
  show "(ticks b fsin adcs (startPlayback b fs s))\<lparr>trace := []\<rparr> = (ticks b fsin adcs s)\<lparr>trace := []\<rparr>"
    unfolding t by simp
next
  assume a: "files fs' audioFilePath = Some B \<and> \<not> open_fails fs'"
  then have h: "files fs' audioFilePath = Some B" "\<not> open_fails fs'" by simp_all
  note ok = startPlayback_ok [OF h, of b s']
  show "isPlaying (startPlayback b fs' s')" by (simp add: ok)
  show "audioFile (startPlayback b fs' s') = Some \<lparr>data = B, pos = 0\<rparr>" by (simp add: ok)
  show "emitted s' (startPlayback b fs' s')
           = [FsOpen audioFilePath True] @ led_play b @
             [SerialPrintf
                (if 1048576 \<le> length B then ''Starting playback: %.2f MB, %.1f seconds\<newline>''
                 else if 1024 \<le> length B then ''Starting playback: %.1f KB, %.1f seconds\<newline>''
                 else ''Starting playback: %d bytes, %.1f seconds\<newline>'')
                [if 1048576 \<le> length B then real (length B) / 1048576
                 else if 1024 \<le> length B then real (length B) / 1024
                 else real (length B),
                 c_float (c_double (c_float (real (length B)) / 40000))]]"
    by (simp add: ok)
  show "\<bar>c_float (c_double (c_float (real (length B)) / 40000)) - real (length B) / 40000\<bar>
           \<le> (real (length B) / 40000) / 2 ^ 22"
    by (rule duration_error)
qed

theorem startPlayback_outcomes_witness:
  "\<not> isPlaying initial \<and> audioFile initial = None
   \<and> (files no_fs audioFilePath = None \<or> open_fails no_fs)
   \<and> startPlayback shipped no_fs initial = initial\<lparr>trace := [SerialPrintln ''Audio file not found'']\<rparr>
   \<and> emitted (startPlayback shipped no_fs initial)
        (ticks shipped sin [0, 0] (startPlayback shipped no_fs initial))
       = emitted initial (ticks shipped sin [0, 0] initial)
   \<and> files (demo_fs [10, 200, 0]) audioFilePath = Some [10, 200, 0]
   \<and> \<not> open_fails (demo_fs [10, 200, 0])
   \<and> isPlaying (startPlayback shipped (demo_fs [10, 200, 0]) initial)
   \<and> emitted initial (startPlayback shipped (demo_fs [10, 200, 0]) initial)
       = [FsOpen audioFilePath True,
          SerialPrintf ''Starting playback: %d bytes, %.1f seconds\<newline>''
            [3, 5153961 / 68719476736]]
   \<and> \<bar>5153961 / 68719476736 - 3 / 40000 :: real\<bar> \<le> (3 / 40000) / 2 ^ 22"
proof -
  have h: "\<not> isPlaying initial \<and> audioFile initial = None
     \<and> (files no_fs audioFilePath = None \<or> open_fails no_fs)"
    by (simp add: initial_def no_fs_def)
  have k: "files (demo_fs [10, 200, 0]) audioFilePath = Some [10, 200, 0]
     \<and> \<not> open_fails (demo_fs [10, 200, 0])"
    by (simp add: demo_fs_def)
  have n: "files no_fs audioFilePath = None" by (simp add: no_fs_def)
  have t0: "trace initial = []" by (simp add: initial_def)
  have led: "led_play shipped = []" by (simp add: led_play_def shipped_def)
  note t = startPlayback_outcomes [where s = initial and fs = no_fs and b = shipped and fsin = sin
      and adcs = "[0, 0]" and fs' = "demo_fs [10, 200, 0]" and B = "[10, 200, 0]" and s' = initial]
  note f = t [THEN conjunct1, rule_format, OF h]
  note g = t [THEN conjunct2, rule_format, OF k]
  from f [THEN conjunct1] have 1: "startPlayback shipped no_fs initial
        = initial\<lparr>trace := [SerialPrintln ''Audio file not found'']\<rparr>"
    by (simp add: n t0)
  have 2: "emitted (startPlayback shipped no_fs initial)
        (ticks shipped sin [0, 0] (startPlayback shipped no_fs initial))
       = emitted initial (ticks shipped sin [0, 0] initial)"
    by (rule f [THEN conjunct2, THEN conjunct2, THEN conjunct2, THEN conjunct1])
  have 3: "isPlaying (startPlayback shipped (demo_fs [10, 200, 0]) initial)"
    by (rule g [THEN conjunct1])
  from g [THEN conjunct2, THEN conjunct2, THEN conjunct1]
  have 4: "emitted initial (startPlayback shipped (demo_fs [10, 200, 0]) initial)
       = [FsOpen audioFilePath True,
          SerialPrintf ''Starting playback: %d bytes, %.1f seconds\<newline>''
            [3, 5153961 / 68719476736]]"
    using duration_3 by (simp add: led)
  from g [THEN conjunct2, THEN conjunct2, THEN conjunct2]
  have 5: "\<bar>5153961 / 68719476736 - 3 / 40000 :: real\<bar> \<le> (3 / 40000) / 2 ^ 22"
    using duration_3 by simp
  from h k 1 2 3 4 5 show ?thesis by simp
qed

section \<open>Live input (C8)\<close>

text \<open>
  In a build with live input and no test mode, a callback without an active session writes
  the ADC value divided by 4.
\<close>

lemma live_input_duty:
  assumes "\<not> TEST_MODE_DC b" and "\<not> TEST_MODE_SINE b" and "ENABLE_LIVE_INPUT b"
    and "\<not> (isPlaying s \<and> audioFile s \<noteq> None)"
  shows "trace (modulate b fsin adc s) =
           trace s @ [AnalogRead AUDIO_PIN, LedcWrite PWM_PIN (uint adc div 4)]"
  using assms
  by (simp add: modulate_not_playing modulate_idle_def ledcWrite_def emit_def)

text \<open>
  C8 does not hold of the sketch. The comment at the division reads "Scale 0-4095 to 0-255
  (ESP ADC is 12-bit)", but the divisor is 4: the 12-bit reading 4095 is written to the
  8-bit carrier as duty 1023.
\<close>

theorem live_input_exceeds_8bit:
  "unat (4095 :: 16 word) \<le> 4095
   \<and> last (trace (modulate live_build fsin 4095 initial)) = LedcWrite PWM_PIN 1023
   \<and> trace (modulate live_build fsin 4095 initial) = [AnalogRead AUDIO_PIN, LedcWrite PWM_PIN 1023]"
proof -
  have h: "\<not> TEST_MODE_DC live_build" "\<not> TEST_MODE_SINE live_build" "ENABLE_LIVE_INPUT live_build"
    "\<not> (isPlaying initial \<and> audioFile initial \<noteq> None)"
    by (simp_all add: live_build_def shipped_def initial_def)
  have t: "trace initial = []" by (simp add: initial_def)
  show ?thesis
    using live_input_duty [OF h, of fsin 4095]
    by (simp add: t)
qed

section \<open>Serial output from the callback (C9)\<close>

text \<open>
  C9 as stated fails: the callback that detects the end of the stream prints the finished
  line itself. Here: the first callback of a session on an empty file.
\<close>

theorem callback_prints_at_end_of_stream:
  "isPlaying (startPlayback shipped (demo_fs []) initial)
   \<and> serial_events (emitted (startPlayback shipped (demo_fs []) initial)
        (modulate shipped sin 0 (startPlayback shipped (demo_fs []) initial)))
       = [SerialPrintln finished_line]"
proof -
  let ?s = "startPlayback shipped (demo_fs []) initial"
  have h: "files (demo_fs []) audioFilePath = Some []" "\<not> open_fails (demo_fs [])"
    by (simp_all add: demo_fs_def)
  have a: "isPlaying ?s" "audioFile ?s = Some \<lparr>data = [], pos = 0\<rparr>"
    by (simp_all add: startPlayback_ok [OF h])
  have m: "modulate shipped sin 0 ?s = ?s\<lparr>audioFile := None, isPlaying := False,
             trace := trace ?s @ [FileClose] @ led_ready shipped @ [SerialPrintln finished_line, LedcWrite PWM_PIN 0]\<rparr>"
    by (rule modulate_eof [OF a]) simp
  show ?thesis
    using a by (simp add: m serial_events_def led_ready_def emitted_def)
qed

text \<open>
  C9, amended. In every state and build, a callback adds serial output to the trace
  exactly when it is entered with a session active and the file exhausted, and then it is
  the one finished line; in every other callback it prints nothing. The sketch has no
  flag by which the loop would report the end of playback.
\<close>

theorem callback_prints_only_at_end_of_stream:
  "serial_events (emitted s (modulate b fsin adc s)) =
     (if isPlaying s \<and> audioFile s \<noteq> None \<and> File_available (the (audioFile s)) = 0
      then [SerialPrintln finished_line] else [])"
proof (cases "isPlaying s \<and> audioFile s \<noteq> None")
  case False
  then show ?thesis
    by (simp add: modulate_not_playing ledcWrite_def emit_def modulate_idle_trace serial_events_def emitted_def)
next
  case True
  then obtain f where f: "audioFile s = Some f" by auto
  show ?thesis
  proof (cases "pos f < length (data f)")
    case True
    show ?thesis
      using True \<open>isPlaying s \<and> audioFile s \<noteq> None\<close>
      by (simp add: modulate_read [OF _ f True] f File_available_def serial_events_def emitted_def)
  next
    case False
    show ?thesis
      using False \<open>isPlaying s \<and> audioFile s \<noteq> None\<close>
      by (simp add: modulate_eof [OF _ f False] f File_available_def serial_events_def led_ready_def emitted_def)
  qed
qed

section \<open>The phase accumulator (C10)\<close>

text \<open>
  C10. In every state the firmware reaches from its initial globals, by any interleaving of
  timer callbacks and loop passes and in every build, the phase accumulator lies in
  \<open>0 ..< sineTableSize\<close> before a call of \<^verbatim>\<open>modulate\<close> and again after it. The increment
  the sketch adds, \<^verbatim>\<open>(int)phaseIncrement\<close>, is not negative and smaller than the table
  size, so the one conditional subtraction restores the bound.
\<close>

theorem sinePhase_in_range:
  "0 \<le> uint (sinePhase (run b fsin fs sts initial))
   \<and> uint (sinePhase (run b fsin fs sts initial)) < sineTableSize
   \<and> 0 \<le> uint (sinePhase (modulate b fsin adc (run b fsin fs sts initial)))
   \<and> uint (sinePhase (modulate b fsin adc (run b fsin fs sts initial))) < sineTableSize
   \<and> 0 \<le> c_int phaseIncrement \<and> c_int phaseIncrement < sineTableSize"
proof -
  have i: "unat (sinePhase initial) < 100" by (simp add: initial_def)
  have r: "unat (sinePhase (run b fsin fs sts initial)) < 100"
    by (rule sinePhase_run [OF i])
  have m: "unat (sinePhase (modulate b fsin adc (run b fsin fs sts initial))) < 100"
    by (rule sinePhase_modulate [OF r])
  have u: "uint w < 100" if "unat w < 100" for w :: "32 word"
  proof -
    from that have "w < 100" by (simp add: word_less_nat_alt)
    then show ?thesis by (simp add: word_less_def)
  qed
  show ?thesis
    using u [OF r] u [OF m] by (simp add: c_int_phaseIncrement sineTableSize_def)
qed

end
